theory Spec2Isabelle
  imports Complex_Main "HOL-Library.AList"
begin

section \<open>Numbers\<close>

text \<open>
  The script computes with Python floats. A finite float is a real number; the three
  other values are constructors of their own. The loader and the composer only compare
  and store the numbers they read and are modelled on reals. The fitter is modelled three
  times: on reals in exact arithmetic (\<open>ols_log10\<close>), on reals with the rounding of every
  operation explicit (\<open>ols_log10_fp\<close>), and on all float values, with the arithmetic of
  IEEE 754 on infinities and NaN and the exceptions Python raises (\<open>ols_log10_float\<close>).
  The three agree where they overlap. The tick selector is modelled with the rounding
  explicit.
\<close>

datatype pyfloat = Fin real | PosInf | NegInf | NaN

fun isfinite :: "pyfloat \<Rightarrow> bool" where
  "isfinite (Fin _) = True"
| "isfinite _ = False"

text \<open>IEEE comparison \<^verbatim>\<open><=\<close>: every comparison with NaN is false.\<close>

fun pf_le :: "pyfloat \<Rightarrow> pyfloat \<Rightarrow> bool" where
  "pf_le NaN _ = False"
| "pf_le _ NaN = False"
| "pf_le NegInf _ = True"
| "pf_le _ PosInf = True"
| "pf_le (Fin a) (Fin c) = (a \<le> c)"
| "pf_le _ _ = False"

text \<open>The comparisons \<^verbatim>\<open><\<close> and \<^verbatim>\<open>==\<close>; \<^verbatim>\<open>x > 0\<close> is \<open>pf_lt (Fin 0) x\<close>.\<close>

fun pf_lt :: "pyfloat \<Rightarrow> pyfloat \<Rightarrow> bool" where
  "pf_lt NaN _ = False"
| "pf_lt _ NaN = False"
| "pf_lt (Fin a) (Fin c) = (a < c)"
| "pf_lt PosInf _ = False"
| "pf_lt _ NegInf = False"
| "pf_lt _ _ = True"

fun pf_eq :: "pyfloat \<Rightarrow> pyfloat \<Rightarrow> bool" where
  "pf_eq (Fin a) (Fin c) = (a = c)"
| "pf_eq PosInf PosInf = True"
| "pf_eq NegInf NegInf = True"
| "pf_eq _ _ = False"

text \<open>The real number a finite float stands for.\<close>

fun float_val :: "pyfloat \<Rightarrow> real" where
  "float_val (Fin a) = a"
| "float_val _ = 0"


text \<open>The exceptions the code can raise are values; a function that can raise returns
  \<open>Inl\<close> of the exception or \<open>Inr\<close> of its result.\<close>

datatype py_error =
  TypeError | ValueError | KeyError | AttributeError | ZeroDivisionError | IndexError

text \<open>Running on after a call that may raise, and a comprehension whose body may raise.\<close>

definition bind_err :: "'e + 'a \<Rightarrow> ('a \<Rightarrow> 'e + 'b) \<Rightarrow> 'e + 'b" where
  "bind_err v f = (case v of Inl e \<Rightarrow> Inl e | Inr a \<Rightarrow> f a)"

fun map_err :: "('a \<Rightarrow> 'e + 'b) \<Rightarrow> 'a list \<Rightarrow> 'e + 'b list" where
  "map_err f [] = Inr []"
| "map_err f (x # xs) = bind_err (f x) (\<lambda>y. bind_err (map_err f xs) (\<lambda>ys. Inr (y # ys)))"

section \<open>Power-law fitter: \<^verbatim>\<open>ols_log10\<close>\<close>

text \<open>The dict returned by \<^verbatim>\<open>ols_log10\<close>, keys m, b, lo, hi, r2, n.\<close>

record fit_result =
  fit_m :: real
  fit_b :: real
  fit_lo :: pyfloat
  fit_hi :: pyfloat
  fit_r2 :: real
  fit_n :: nat

text \<open>The chain \<^verbatim>\<open>if df <= 0 ... elif df == 1 ... else\<close> choosing \<^verbatim>\<open>tcrit\<close>.\<close>

definition tcrit_of :: "int \<Rightarrow> real" where
  "tcrit_of df =
     (if df \<le> 0 then 1.96
      else if df = 1 then 12.706
      else if df = 2 then 4.303
      else if df \<le> 20 then 2.086
      else 1.96)"

text \<open>
  \<^verbatim>\<open>lo, hi = m - tcrit * se, m + tcrit * se\<close>. Every \<^verbatim>\<open>tcrit\<close> is positive, so with
  \<^verbatim>\<open>se = inf\<close> the products are \<^verbatim>\<open>inf\<close> and the bounds are \<^verbatim>\<open>-inf\<close> and \<^verbatim>\<open>inf\<close>.
\<close>

fun ci_bounds :: "real \<Rightarrow> real \<Rightarrow> pyfloat \<Rightarrow> pyfloat \<times> pyfloat" where
  "ci_bounds m t (Fin se) = (Fin (m - t * se), Fin (m + t * se))"
| "ci_bounds m t PosInf = (NegInf, PosInf)"
| "ci_bounds m t NegInf = (PosInf, NegInf)"
| "ci_bounds m t NaN = (NaN, NaN)"

definition ols_log10 :: "real list \<Rightarrow> real list \<Rightarrow> fit_result option" where
  "ols_log10 xs ys =
     (let pts = filter (\<lambda>(x, y). x > 0 \<and> y > 0) (zip xs ys) in
      if length pts < 3 then None
      else
        let lx = map (\<lambda>(x, _). log 10 x) pts;
            ly = map (\<lambda>(_, y). log 10 y) pts;
            n = length lx;
            xm = sum_list lx / real n;
            ym = sum_list ly / real n;
            sxx = sum_list (map (\<lambda>x. (x - xm)\<^sup>2) lx)
        in
        if sxx = 0 then None
        else
          let sxy = sum_list (map (\<lambda>(x, y). (x - xm) * (y - ym)) (zip lx ly));
              m = sxy / sxx;
              b = ym - m * xm;
              rss = sum_list (map (\<lambda>(x, y). (y - (m * x + b))\<^sup>2) (zip lx ly));
              tss = sum_list (map (\<lambda>y. (y - ym)\<^sup>2) ly);
              r2 = (if tss = 0 then 0 else 1 - rss / tss);
              df = int n - 2;
              s2 = rss / real_of_int (max 1 df);
              se = (if sxx > 0 then Fin (sqrt (s2 / sxx)) else PosInf);
              tcrit = tcrit_of df;
              (lo, hi) = ci_bounds m tcrit se
          in Some \<lparr>fit_m = m, fit_b = b, fit_lo = lo, fit_hi = hi, fit_r2 = r2, fit_n = n\<rparr>)"


text \<open>
  The same function with the rounding of floating-point arithmetic made explicit: \<open>rnd\<close>
  rounds the exact result of every operation and \<open>lg\<close> is \<^verbatim>\<open>math.log10\<close>. \<^verbatim>\<open>sum\<close> adds from
  the left, starting at 0 (CPython up to 3.11; from 3.12 on it carries a compensation term
  as well). With no rounding and the exact logarithm this is \<open>ols_log10\<close>.
\<close>

definition fsum :: "(real \<Rightarrow> real) \<Rightarrow> real list \<Rightarrow> real" where
  "fsum rnd xs = foldl (\<lambda>acc x. rnd (acc + x)) 0 xs"

fun ci_bounds_fp :: "(real \<Rightarrow> real) \<Rightarrow> real \<Rightarrow> real \<Rightarrow> pyfloat \<Rightarrow> pyfloat \<times> pyfloat" where
  "ci_bounds_fp rnd m t (Fin se) = (Fin (rnd (m - rnd (t * se))), Fin (rnd (m + rnd (t * se))))"
| "ci_bounds_fp rnd m t PosInf = (NegInf, PosInf)"
| "ci_bounds_fp rnd m t NegInf = (PosInf, NegInf)"
| "ci_bounds_fp rnd m t NaN = (NaN, NaN)"

definition ols_log10_fp ::
  "(real \<Rightarrow> real) \<Rightarrow> (real \<Rightarrow> real) \<Rightarrow> real list \<Rightarrow> real list \<Rightarrow> fit_result option" where
  "ols_log10_fp rnd lg xs ys =
     (let pts = filter (\<lambda>(x, y). x > 0 \<and> y > 0) (zip xs ys) in
      if length pts < 3 then None
      else
        let lx = map (\<lambda>(x, _). lg x) pts;
            ly = map (\<lambda>(_, y). lg y) pts;
            n = length lx;
            xm = rnd (fsum rnd lx / real n);
            ym = rnd (fsum rnd ly / real n);
            sxx = fsum rnd (map (\<lambda>x. rnd ((rnd (x - xm))\<^sup>2)) lx)
        in
        if sxx = 0 then None
        else
          let sxy = fsum rnd (map (\<lambda>(x, y). rnd (rnd (x - xm) * rnd (y - ym))) (zip lx ly));
              m = rnd (sxy / sxx);
              b = rnd (ym - rnd (m * xm));
              rss = fsum rnd (map (\<lambda>(x, y). rnd ((rnd (y - rnd (rnd (m * x) + b)))\<^sup>2)) (zip lx ly));
              tss = fsum rnd (map (\<lambda>y. rnd ((rnd (y - ym))\<^sup>2)) ly);
              r2 = (if tss = 0 then 0 else rnd (1 - rnd (rss / tss)));
              df = int n - 2;
              s2 = rnd (rss / real_of_int (max 1 df));
              se = (if sxx > 0 then Fin (rnd (sqrt (rnd (s2 / sxx)))) else PosInf);
              tcrit = rnd (tcrit_of df);
              (lo, hi) = ci_bounds_fp rnd m tcrit se
          in Some \<lparr>fit_m = m, fit_b = b, fit_lo = lo, fit_hi = hi, fit_r2 = r2, fit_n = n\<rparr>)"

text \<open>
  The rounding of Python's floats: IEEE 754 binary64, to nearest, ties to even, for
  results in the normal range (53 significant bits; no overflow, no subnormal numbers).
\<close>

definition round_half_even :: "real \<Rightarrow> int" where
  "round_half_even q =
     (let f = \<lfloor>q\<rfloor>; r = q - of_int f
      in if r < 1 / 2 then f else if 1 / 2 < r then f + 1 else if even f then f else f + 1)"

definition round_double :: "real \<Rightarrow> real" where
  "round_double x =
     (if x = 0 then 0
      else let u = 2 powr of_int (\<lfloor>log 2 \<bar>x\<bar>\<rfloor> - 52)
           in of_int (round_half_even (x / u)) * u)"

text \<open>
  What the proofs below use of a rounding: it is monotone, exact at 0, and leaves a
  value it has produced unchanged. The identity (exact arithmetic) and \<open>round_double\<close> are
  both roundings.
\<close>

definition rounding :: "(real \<Rightarrow> real) \<Rightarrow> bool" where
  "rounding rnd \<longleftrightarrow> mono rnd \<and> rnd 0 = 0 \<and> (\<forall>x. rnd (rnd x) = rnd x)"

text \<open>
  \<^verbatim>\<open>math.log10\<close> as a correctly rounded function, for running the rounded models on
  concrete series. The theorems below take \<^verbatim>\<open>math.log10\<close> as a parameter \<open>lg\<close>.
\<close>

definition log10_double :: "real \<Rightarrow> real" where
  "log10_double x = round_double (log 10 x)"

subsection \<open>The fitter on all float values\<close>

text \<open>
  Python's operations on floats, infinities and NaN included. A finite result is rounded
  by \<open>rnd\<close>; the other cases are those of IEEE 754. \<^verbatim>\<open>x / y\<close> raises ZeroDivisionError
  when \<open>y\<close> is 0, whatever \<open>x\<close> is; \<^verbatim>\<open>math.sqrt\<close> and \<^verbatim>\<open>math.log10\<close> raise ValueError
  outside their domains. The sign of a zero is not kept, and a finite result is never
  turned into an infinity (no overflow).
\<close>

fun x_add :: "(real \<Rightarrow> real) \<Rightarrow> pyfloat \<Rightarrow> pyfloat \<Rightarrow> pyfloat" where
  "x_add rnd (Fin a) (Fin c) = Fin (rnd (a + c))"
| "x_add rnd NaN _ = NaN"
| "x_add rnd _ NaN = NaN"
| "x_add rnd PosInf NegInf = NaN"
| "x_add rnd NegInf PosInf = NaN"
| "x_add rnd PosInf _ = PosInf"
| "x_add rnd _ PosInf = PosInf"
| "x_add rnd NegInf _ = NegInf"
| "x_add rnd _ NegInf = NegInf"

fun x_sub :: "(real \<Rightarrow> real) \<Rightarrow> pyfloat \<Rightarrow> pyfloat \<Rightarrow> pyfloat" where
  "x_sub rnd (Fin a) (Fin c) = Fin (rnd (a - c))"
| "x_sub rnd NaN _ = NaN"
| "x_sub rnd _ NaN = NaN"
| "x_sub rnd PosInf PosInf = NaN"
| "x_sub rnd NegInf NegInf = NaN"
| "x_sub rnd PosInf _ = PosInf"
| "x_sub rnd _ PosInf = NegInf"
| "x_sub rnd NegInf _ = NegInf"
| "x_sub rnd _ NegInf = PosInf"

fun inf_of_sign :: "real \<Rightarrow> pyfloat" where
  "inf_of_sign s = (if s = 0 then NaN else if s > 0 then PosInf else NegInf)"

fun x_mul :: "(real \<Rightarrow> real) \<Rightarrow> pyfloat \<Rightarrow> pyfloat \<Rightarrow> pyfloat" where
  "x_mul rnd (Fin a) (Fin c) = Fin (rnd (a * c))"
| "x_mul rnd NaN _ = NaN"
| "x_mul rnd _ NaN = NaN"
| "x_mul rnd (Fin a) PosInf = inf_of_sign a"
| "x_mul rnd (Fin a) NegInf = inf_of_sign (- a)"
| "x_mul rnd PosInf (Fin c) = inf_of_sign c"
| "x_mul rnd NegInf (Fin c) = inf_of_sign (- c)"
| "x_mul rnd PosInf PosInf = PosInf"
| "x_mul rnd NegInf NegInf = PosInf"
| "x_mul rnd PosInf NegInf = NegInf"
| "x_mul rnd NegInf PosInf = NegInf"

fun x_div :: "(real \<Rightarrow> real) \<Rightarrow> pyfloat \<Rightarrow> pyfloat \<Rightarrow> py_error + pyfloat" where
  "x_div rnd a (Fin c) =
     (if c = 0 then Inl ZeroDivisionError
      else Inr (case a of Fin a' \<Rightarrow> Fin (rnd (a' / c)) | NaN \<Rightarrow> NaN
                | PosInf \<Rightarrow> inf_of_sign c | NegInf \<Rightarrow> inf_of_sign (- c)))"
| "x_div rnd (Fin a) PosInf = Inr (Fin 0)"
| "x_div rnd (Fin a) NegInf = Inr (Fin 0)"
| "x_div rnd _ _ = Inr NaN"

fun x_sq :: "(real \<Rightarrow> real) \<Rightarrow> pyfloat \<Rightarrow> pyfloat" where
  "x_sq rnd (Fin a) = Fin (rnd (a\<^sup>2))"
| "x_sq rnd NaN = NaN"
| "x_sq rnd _ = PosInf"

fun x_sqrt :: "(real \<Rightarrow> real) \<Rightarrow> pyfloat \<Rightarrow> py_error + pyfloat" where
  "x_sqrt rnd (Fin a) = (if a < 0 then Inl ValueError else Inr (Fin (rnd (sqrt a))))"
| "x_sqrt rnd PosInf = Inr PosInf"
| "x_sqrt rnd NegInf = Inl ValueError"
| "x_sqrt rnd NaN = Inr NaN"

fun x_log10 :: "(real \<Rightarrow> real) \<Rightarrow> pyfloat \<Rightarrow> py_error + pyfloat" where
  "x_log10 lg (Fin a) = (if a > 0 then Inr (Fin (lg a)) else Inl ValueError)"
| "x_log10 lg PosInf = Inr PosInf"
| "x_log10 lg NegInf = Inl ValueError"
| "x_log10 lg NaN = Inr NaN"

definition x_sum :: "(real \<Rightarrow> real) \<Rightarrow> pyfloat list \<Rightarrow> pyfloat" where
  "x_sum rnd xs = foldl (x_add rnd) (Fin 0) xs"

text \<open>
  The fitter once more, on all float values, line by line as in the source. The result
  is \<open>Inl\<close> of an exception, \<open>Inr None\<close>, or \<open>Inr\<close> of the dict, whose numbers are floats.
\<close>

record float_fit =
  ff_m :: pyfloat
  ff_b :: pyfloat
  ff_lo :: pyfloat
  ff_hi :: pyfloat
  ff_r2 :: pyfloat
  ff_n :: nat

definition ols_log10_float ::
  "(real \<Rightarrow> real) \<Rightarrow> (real \<Rightarrow> real) \<Rightarrow> pyfloat list \<Rightarrow> pyfloat list
    \<Rightarrow> py_error + float_fit option" where
  "ols_log10_float rnd lg xs ys =
     (let pts = filter (\<lambda>(x, y). pf_lt (Fin 0) x \<and> pf_lt (Fin 0) y) (zip xs ys) in
      if length pts < 3 then Inr None
      else
        bind_err (map_err (\<lambda>(x, _). x_log10 lg x) pts) (\<lambda>lx.
        bind_err (map_err (\<lambda>(_, y). x_log10 lg y) pts) (\<lambda>ly.
        let n = length lx in
        bind_err (x_div rnd (x_sum rnd lx) (Fin (real n))) (\<lambda>xm.
        bind_err (x_div rnd (x_sum rnd ly) (Fin (real n))) (\<lambda>ym.
        let sxx = x_sum rnd (map (\<lambda>x. x_sq rnd (x_sub rnd x xm)) lx) in
        if pf_eq sxx (Fin 0) then Inr None
        else
          let sxy = x_sum rnd (map (\<lambda>(x, y). x_mul rnd (x_sub rnd x xm) (x_sub rnd y ym)) (zip lx ly)) in
          bind_err (x_div rnd sxy sxx) (\<lambda>m.
          let b = x_sub rnd ym (x_mul rnd m xm);
              rss = x_sum rnd (map (\<lambda>(x, y). x_sq rnd (x_sub rnd y (x_add rnd (x_mul rnd m x) b)))
                      (zip lx ly));
              tss = x_sum rnd (map (\<lambda>y. x_sq rnd (x_sub rnd y ym)) ly)
          in
          bind_err (if pf_eq tss (Fin 0) then Inr (Fin 0)
                    else bind_err (x_div rnd rss tss) (\<lambda>q. Inr (x_sub rnd (Fin 1) q))) (\<lambda>r2.
          let df = int n - 2 in
          bind_err (x_div rnd rss (Fin (real_of_int (max 1 df)))) (\<lambda>s2.
          bind_err (if pf_lt (Fin 0) sxx then bind_err (x_div rnd s2 sxx) (x_sqrt rnd)
                    else Inr PosInf) (\<lambda>se.
          let tcrit = Fin (rnd (tcrit_of df));
              lo = x_sub rnd m (x_mul rnd tcrit se);
              hi = x_add rnd m (x_mul rnd tcrit se)
          in Inr (Some \<lparr>ff_m = m, ff_b = b, ff_lo = lo, ff_hi = hi, ff_r2 = r2, ff_n = n\<rparr>))))))))))"

text \<open>A result of the rounded model on reals, read as a result on floats.\<close>

definition float_fit_of :: "fit_result \<Rightarrow> float_fit" where
  "float_fit_of r =
     \<lparr>ff_m = Fin (fit_m r), ff_b = Fin (fit_b r), ff_lo = fit_lo r, ff_hi = fit_hi r,
      ff_r2 = Fin (fit_r2 r), ff_n = fit_n r\<rparr>"


section \<open>JSON records and Python's conversions\<close>

text \<open>
  What \<^verbatim>\<open>json.loads\<close> returns. A JSON number is a Python int or float; \<^verbatim>\<open>float()\<close> and
  \<^verbatim>\<open>int()\<close> treat both alike, so one constructor holds the value. An object is a dict,
  kept as an association list with one entry per key and read with \<^const>\<open>map_of\<close>.
\<close>

datatype json =
  JNull | JBool bool | JNum real | JStr string | JArr "json list" | JObj "(string \<times> json) list"

text \<open>
  \<^verbatim>\<open>float(v)\<close>. Which strings denote a number is Python's grammar of float literals; it is
  the parameter \<open>sf\<close> (\<open>None\<close>: the string is rejected with ValueError).
\<close>

fun py_float :: "(string \<Rightarrow> real option) \<Rightarrow> json \<Rightarrow> py_error + real" where
  "py_float sf (JNum r) = Inr r"
| "py_float sf (JBool c) = Inr (if c then 1 else 0)"
| "py_float sf (JStr s) = (case sf s of None \<Rightarrow> Inl ValueError | Some r \<Rightarrow> Inr r)"
| "py_float sf JNull = Inl TypeError"
| "py_float sf (JArr _) = Inl TypeError"
| "py_float sf (JObj _) = Inl TypeError"

text \<open>\<^verbatim>\<open>int(v)\<close>: a float is truncated towards zero; \<open>si\<close> is the grammar of int literals.\<close>

fun py_int :: "(string \<Rightarrow> int option) \<Rightarrow> json \<Rightarrow> py_error + int" where
  "py_int si (JNum r) = Inr (if r < 0 then \<lceil>r\<rceil> else \<lfloor>r\<rfloor>)"
| "py_int si (JBool c) = Inr (if c then 1 else 0)"
| "py_int si (JStr s) = (case si s of None \<Rightarrow> Inl ValueError | Some k \<Rightarrow> Inr k)"
| "py_int si JNull = Inl TypeError"
| "py_int si (JArr _) = Inl TypeError"
| "py_int si (JObj _) = Inl TypeError"

text \<open>A conversion under which no string is a number, for running the code on records
  that hold no strings where numbers are read.\<close>

definition no_numeric_strings :: "string \<Rightarrow> 'a option" where
  "no_numeric_strings s = None"

text \<open>\<^verbatim>\<open>v[k]\<close> with a string key, and \<^verbatim>\<open>v.get(k, d)\<close>.\<close>

fun py_getitem :: "json \<Rightarrow> string \<Rightarrow> py_error + json" where
  "py_getitem (JObj kv) k = (case map_of kv k of None \<Rightarrow> Inl KeyError | Some v \<Rightarrow> Inr v)"
| "py_getitem _ k = Inl TypeError"

definition dict_get :: "(string \<times> json) list \<Rightarrow> string \<Rightarrow> json \<Rightarrow> json" where
  "dict_get kv k d = (case map_of kv k of None \<Rightarrow> d | Some v \<Rightarrow> v)"

fun py_get :: "json \<Rightarrow> string \<Rightarrow> json \<Rightarrow> py_error + json" where
  "py_get (JObj kv) k d = Inr (dict_get kv k d)"
| "py_get _ k d = Inl AttributeError"

fun try_get :: "(string \<times> json) list \<Rightarrow> string list \<Rightarrow> json \<Rightarrow> json" where
  "try_get obj [] d = d"
| "try_get obj (k # ks) d =
     (case map_of obj k of
        None \<Rightarrow> try_get obj ks d
      | Some v \<Rightarrow> if v \<noteq> JNull then v else try_get obj ks d)"

section \<open>Schema-tolerant loader: \<^verbatim>\<open>load_series\<close>\<close>

text \<open>The test of case 1:
  \<^verbatim>\<open>isinstance(items, list) and items and isinstance(items[0], dict) and "dt" in items[0]\<close>.\<close>

fun is_plateau_audit :: "json \<Rightarrow> bool" where
  "is_plateau_audit (JArr (JObj kv # _)) = (map_of kv ''dt'' \<noteq> None)"
| "is_plateau_audit _ = False"

text \<open>The body of the \<^verbatim>\<open>try\<close>: \<^verbatim>\<open>x = float(it["dt"]); y = float(it["tail_median"])\<close>.\<close>

definition dict_item_xy :: "(string \<Rightarrow> real option) \<Rightarrow> json \<Rightarrow> py_error + real \<times> real" where
  "dict_item_xy sf it =
     (case py_getitem it ''dt'' of
        Inl e \<Rightarrow> Inl e
      | Inr v \<Rightarrow>
          (case py_float sf v of
             Inl e \<Rightarrow> Inl e
           | Inr x \<Rightarrow>
               (case py_getitem it ''tail_median'' of
                  Inl e \<Rightarrow> Inl e
                | Inr w \<Rightarrow>
                    (case py_float sf w of
                       Inl e \<Rightarrow> Inl e
                     | Inr y \<Rightarrow> Inr (x, y)))))"

text \<open>
  The loop of case 1. The three lists \<open>xs\<close>, \<open>ys\<close>, \<open>runs\<close> grow together, so they are one
  list of triples. \<^verbatim>\<open>except Exception: continue\<close> skips the entry; the \<^verbatim>\<open>int(...)\<close> of
  \<open>runs\<close> stands outside the \<^verbatim>\<open>try\<close> and its error ends the load.
\<close>

fun load_report ::
  "(string \<Rightarrow> real option) \<Rightarrow> (string \<Rightarrow> int option) \<Rightarrow> json list
    \<Rightarrow> py_error + (real \<times> real \<times> int) list" where
  "load_report sf si [] = Inr []"
| "load_report sf si (it # items) =
     (case dict_item_xy sf it of
        Inl _ \<Rightarrow> load_report sf si items
      | Inr (x, y) \<Rightarrow>
          if x > 0 \<and> y > 0 then
            (case py_get it ''runs'' (JNum 0) of
               Inl e \<Rightarrow> Inl e
             | Inr rv \<Rightarrow>
                 (case py_int si rv of
                    Inl e \<Rightarrow> Inl e
                  | Inr r \<Rightarrow>
                      (case load_report sf si items of
                         Inl e \<Rightarrow> Inl e
                       | Inr ps \<Rightarrow> Inr ((x, y, r) # ps))))
          else load_report sf si items)"

text \<open>The loop of case 2: only the shape of \<open>pair\<close> is tested; \<^verbatim>\<open>float(pair[0])\<close> and
  \<^verbatim>\<open>float(pair[1])\<close> are not guarded.\<close>

fun load_points :: "(string \<Rightarrow> real option) \<Rightarrow> json list \<Rightarrow> py_error + (real \<times> real) list" where
  "load_points sf [] = Inr []"
| "load_points sf (JArr (a # c # _) # pairs) =
     (case py_float sf a of
        Inl e \<Rightarrow> Inl e
      | Inr x \<Rightarrow>
          (case py_float sf c of
             Inl e \<Rightarrow> Inl e
           | Inr y \<Rightarrow>
               (case load_points sf pairs of
                  Inl e \<Rightarrow> Inl e
                | Inr ps \<Rightarrow> Inr (if x > 0 \<and> y > 0 then (x, y) # ps else ps))))"
| "load_points sf (_ # pairs) = load_points sf pairs"

text \<open>\<^verbatim>\<open>sorted(zip(xs, ys, runs), key=lambda t: t[0])\<close> (a stable sort) and the three
  comprehensions that take the columns apart again.\<close>

definition sort_by_dt ::
  "(real \<times> real \<times> int) list \<Rightarrow> int option \<Rightarrow> real list \<times> real list \<times> int list \<times> int option" where
  "sort_by_dt ps n_pts =
     (let z = sort_key fst ps
      in (map fst z, map (\<lambda>(_, y, _). y) z, map (\<lambda>(_, _, r). r) z, n_pts))"

definition load_series ::
  "(string \<Rightarrow> real option) \<Rightarrow> (string \<Rightarrow> int option) \<Rightarrow> (string \<times> json) list
    \<Rightarrow> py_error + real list \<times> real list \<times> int list \<times> int option" where
  "load_series sf si obj =
     (let items = try_get obj [''report'', ''series''] (JArr []) in
      if is_plateau_audit items then
        (case load_report sf si (case items of JArr its \<Rightarrow> its | _ \<Rightarrow> []) of
           Inl e \<Rightarrow> Inl e
         | Inr ps \<Rightarrow> Inr (sort_by_dt ps (if ps \<noteq> [] then Some (int (length ps)) else None)))
      else
        (case map_of obj ''points'' of
           Some (JArr pairs) \<Rightarrow>
             (case load_points sf pairs of
                Inl e \<Rightarrow> Inl e
              | Inr xy \<Rightarrow>
                  let ps = map (\<lambda>(x, y). (x, y, 0)) xy in
                  if xy \<noteq> [] then
                    (case py_int si (dict_get obj ''n'' (JNum (real (length xy)))) of
                       Inl e \<Rightarrow> Inl e
                     | Inr k \<Rightarrow> Inr (sort_by_dt ps (Some k)))
                  else Inr (sort_by_dt ps None))
         | _ \<Rightarrow> Inr (sort_by_dt [] None)))"

section \<open>Tick selector: \<^verbatim>\<open>_nice_sparse_log_ticks\<close>\<close>

(*TICKDEFS*)

section \<open>Duplicate detector: \<^verbatim>\<open>nearly_identical\<close>\<close>

definition nearly_identical :: "real list \<Rightarrow> real list \<Rightarrow> real \<Rightarrow> bool" where
  "nearly_identical a c tol =
     (if length a \<noteq> length c then False
      else list_all (\<lambda>(x, y). \<bar>x - y\<bar> \<le> tol) (zip a c))"

text \<open>
  The double loop over \<^verbatim>\<open>keys = list(series_data.keys())\<close> with \<open>i < j\<close>, collecting the
  pairs of labels it warns about, in the order of the loop. The dict is the list of its
  entries in insertion order.
\<close>

fun dup_warnings :: "(string \<times> real list \<times> real list) list \<Rightarrow> (string \<times> string) list" where
  "dup_warnings [] = []"
| "dup_warnings ((a, xa, ya) # rest) =
     map (\<lambda>(c, _, _). (a, c))
       (filter (\<lambda>(c, xb, yb). xa \<noteq> [] \<and> xb \<noteq> [] \<and> nearly_identical xa xb (1 / 10 ^ 12)
                   \<and> nearly_identical ya yb (1 / 10 ^ 12)) rest)
     @ dup_warnings rest"

section \<open>Overlay composer: \<^verbatim>\<open>make_overlay\<close>\<close>

text \<open>The string tests on a label: \<^verbatim>\<open>str.lower\<close> (on ASCII letters), \<^verbatim>\<open>str.endswith\<close>
  and \<^verbatim>\<open>sub in s\<close>.\<close>

definition lower_char :: "char \<Rightarrow> char" where
  "lower_char c =
     (let k = (of_char c :: nat) in if 65 \<le> k \<and> k \<le> 90 then char_of (k + 32) else c)"

definition py_lower :: "string \<Rightarrow> string" where
  "py_lower s = map lower_char s"

definition endswith :: "string \<Rightarrow> string \<Rightarrow> bool" where
  "endswith s suf = (length suf \<le> length s \<and> drop (length s - length suf) s = suf)"

fun str_contains :: "string \<Rightarrow> string \<Rightarrow> bool" where
  "str_contains [] sub = (sub = [])"
| "str_contains (c # s) sub = (take (length sub) (c # s) = sub \<or> str_contains s sub)"

text \<open>
  What the composer hands to the rendering backend and to the console. A draw call
  carries the label of its series (colour, marker and line style are fixed per label) and
  the coordinates. A caption line is kept with its numbers: \<open>CapFit label m lo hi r2\<close> is
  the line \<^verbatim>\<open>{label}: m={m:+.3f} [{lo:+.3f},{hi:+.3f}] R^2={r2:.2f}\<close> and \<open>CapNA label\<close> the
  line \<^verbatim>\<open>{label}: fit n/a\<close>.
\<close>

datatype draw =
  DrawLine string "real list" "real list"
| DrawMarkers string "real list" "real list"
| DrawFit string "real list" "real list"

datatype caption_line =
  CapFit string real pyfloat pyfloat real
| CapNA string

record overlay =
  ov_draws :: "draw list"
  ov_labels :: "string list"
  ov_caption :: "caption_line list"
  ov_series_data :: "(string \<times> real list \<times> real list) list"
  ov_warnings :: "(string \<times> string) list"

definition overlay_init :: overlay where
  "overlay_init =
     \<lparr>ov_draws = [], ov_labels = [], ov_caption = [], ov_series_data = [], ov_warnings = []\<rparr>"

text \<open>The rebinding of \<open>xs\<close> at the head of the loop body.\<close>

definition jitter_xs :: "real \<Rightarrow> string \<Rightarrow> real list \<Rightarrow> real list" where
  "jitter_xs thrash_jitter_pct label xs =
     (if endswith (py_lower label) ''thrash'' \<and> thrash_jitter_pct \<noteq> 0
      then map (\<lambda>x. x * (1 + thrash_jitter_pct / 100)) xs
      else xs)"

text \<open>\<^verbatim>\<open>math.log10\<close> raises ValueError outside the positive reals.\<close>

definition py_log10 :: "real \<Rightarrow> py_error + real" where
  "py_log10 x = (if x > 0 then Inr (log 10 x) else Inl ValueError)"

text \<open>The end points of the faint fit line, for a non-empty \<open>xs\<close>:
  \<^verbatim>\<open>xx = [min(xs), max(xs)]\<close> and \<^verbatim>\<open>yy = [10 ** (m * math.log10(x) + b) for x in xx]\<close>.\<close>

definition fit_line :: "fit_result \<Rightarrow> real list \<Rightarrow> py_error + real list \<times> real list" where
  "fit_line fit xs =
     (let x0 = fold min (tl xs) (hd xs);
          x1 = fold max (tl xs) (hd xs)
      in case py_log10 x0 of
           Inl e \<Rightarrow> Inl e
         | Inr l0 \<Rightarrow>
             (case py_log10 x1 of
                Inl e \<Rightarrow> Inl e
              | Inr l1 \<Rightarrow>
                  Inr ([x0, x1],
                       [10 powr (fit_m fit * l0 + fit_b fit), 10 powr (fit_m fit * l1 + fit_b fit)])))"

text \<open>
  One round of \<^verbatim>\<open>for label, path, color, marker, lstyle in specs\<close>; \<open>obj\<close> is the parsed
  content of the file at \<open>path\<close>. The tick set \<open>dt_all\<close> and the legend handles only
  reach the backend and are left out.
\<close>

definition overlay_series ::
  "(string \<Rightarrow> real option) \<Rightarrow> (string \<Rightarrow> int option) \<Rightarrow> bool \<Rightarrow> real
    \<Rightarrow> string \<Rightarrow> (string \<times> json) list \<Rightarrow> overlay \<Rightarrow> py_error + overlay" where
  "overlay_series sf si show_fit thrash_jitter_pct label obj st =
     (case load_series sf si obj of
        Inl e \<Rightarrow> Inl e
      | Inr (xs0, ys, runs, n_pts) \<Rightarrow>
          let xs = jitter_xs thrash_jitter_pct label xs0;
              st = st\<lparr>ov_series_data := AList.update label (xs, ys) (ov_series_data st)\<rparr>
          in
          if xs = [] then Inr st
          else
            let st = st\<lparr>ov_draws := ov_draws st @ [DrawLine label xs ys, DrawMarkers label xs ys]\<rparr>
            in
            (case ols_log10 xs ys of
               Some fit \<Rightarrow>
                 let leg_text =
                       (if fit_r2 fit < 0.30 \<and> str_contains (py_lower label) ''scramble''
                        then label @ '' (low $R^2$)'' else label);
                     cap = CapFit label (fit_m fit) (fit_lo fit) (fit_hi fit) (fit_r2 fit)
                 in
                 if show_fit then
                   (case fit_line fit xs of
                      Inl e \<Rightarrow> Inl e
                    | Inr (xx, yy) \<Rightarrow>
                        Inr (st\<lparr>ov_draws := ov_draws st @ [DrawFit label xx yy],
                                ov_caption := ov_caption st @ [cap],
                                ov_labels := ov_labels st @ [leg_text]\<rparr>))
                 else
                   Inr (st\<lparr>ov_caption := ov_caption st @ [cap],
                           ov_labels := ov_labels st @ [leg_text]\<rparr>)
             | None \<Rightarrow>
                 Inr (st\<lparr>ov_caption := ov_caption st @ [CapNA label],
                         ov_labels := ov_labels st @ [label]\<rparr>)))"

fun overlay_loop ::
  "(string \<Rightarrow> real option) \<Rightarrow> (string \<Rightarrow> int option) \<Rightarrow> bool \<Rightarrow> real
    \<Rightarrow> (string \<times> (string \<times> json) list) list \<Rightarrow> overlay \<Rightarrow> py_error + overlay" where
  "overlay_loop sf si show_fit pct [] st = Inr st"
| "overlay_loop sf si show_fit pct ((label, obj) # specs) st =
     (case overlay_series sf si show_fit pct label obj st of
        Inl e \<Rightarrow> Inl e
      | Inr st' \<Rightarrow> overlay_loop sf si show_fit pct specs st')"

text \<open>
  \<^verbatim>\<open>make_overlay\<close>, from the parsed contents of the default file and of the optional
  thrash and scramble files: the list \<open>specs\<close>, the loop, then the numeric duplicate
  warnings. Hashing the files, axis ticks, legend title and saving the figure act on the
  file system and the backend only.
\<close>

definition make_overlay ::
  "(string \<Rightarrow> real option) \<Rightarrow> (string \<Rightarrow> int option) \<Rightarrow> (string \<times> json) list
    \<Rightarrow> (string \<times> json) list option \<Rightarrow> (string \<times> json) list option \<Rightarrow> bool \<Rightarrow> real
    \<Rightarrow> py_error + overlay" where
  "make_overlay sf si p_default p_thrash p_scramble show_fit thrash_jitter_pct =
     (let specs =
            [(''LF-default'', p_default)]
            @ (case p_thrash of None \<Rightarrow> [] | Some p \<Rightarrow> [(''LF-thrash'', p)])
            @ (case p_scramble of None \<Rightarrow> [] | Some p \<Rightarrow> [(''LF-scramble'', p)])
      in case overlay_loop sf si show_fit thrash_jitter_pct specs overlay_init of
           Inl e \<Rightarrow> Inl e
         | Inr st \<Rightarrow> Inr (st\<lparr>ov_warnings := dup_warnings (ov_series_data st)\<rparr>))"


text \<open>The list \<open>specs\<close> of \<^verbatim>\<open>make_overlay\<close> on its own.\<close>

definition overlay_specs ::
  "(string \<times> json) list \<Rightarrow> (string \<times> json) list option \<Rightarrow> (string \<times> json) list option
    \<Rightarrow> (string \<times> (string \<times> json) list) list" where
  "overlay_specs p_default p_thrash p_scramble =
     [(''LF-default'', p_default)]
     @ (case p_thrash of None \<Rightarrow> [] | Some p \<Rightarrow> [(''LF-thrash'', p)])
     @ (case p_scramble of None \<Rightarrow> [] | Some p \<Rightarrow> [(''LF-scramble'', p)])"

section \<open>Properties of the fitter\<close>

lemma sum_list_const_map: "sum_list (map (\<lambda>_. c::real) xs) = real (length xs) * c"
  by (induction xs) (simp_all add: algebra_simps)

lemma sq_dev_zero_iff:
  fixes lx :: "real list"
  shows "sum_list (map (\<lambda>x. (x - c)\<^sup>2) lx) = 0 \<longleftrightarrow> (\<forall>x\<in>set lx. x = c)"
proof -
  have "sum_list (map (\<lambda>x. (x - c)\<^sup>2) lx) = 0 \<longleftrightarrow> (\<forall>v\<in>set (map (\<lambda>x. (x - c)\<^sup>2) lx). v = 0)"
    by (rule sum_list_nonneg_eq_0_iff) auto
  then show ?thesis by auto
qed

lemma mean_all_equal:
  fixes lx :: "real list"
  assumes "lx \<noteq> []" "\<forall>x\<in>set lx. \<forall>y\<in>set lx. x = y"
  shows "\<forall>x\<in>set lx. x = sum_list lx / real (length lx)"
proof -
  obtain c where c: "c \<in> set lx" using assms(1) by (cases lx) auto
  have "\<forall>x\<in>set lx. x = c" using assms(2) c by blast
  then have "map (\<lambda>_. c) lx = lx" by (induction lx) auto
  then have "sum_list lx = real (length lx) * c" using sum_list_const_map[of c lx] by simp
  then have "sum_list lx / real (length lx) = c" using assms(1) by simp
  then show ?thesis using \<open>\<forall>x\<in>set lx. x = c\<close> by simp
qed

lemma sxx_zero_iff:
  fixes lx :: "real list"
  assumes "lx \<noteq> []"
  shows "sum_list (map (\<lambda>x. (x - sum_list lx / real (length lx))\<^sup>2) lx) = 0
         \<longleftrightarrow> (\<forall>x\<in>set lx. \<forall>y\<in>set lx. x = y)"
proof
  assume "sum_list (map (\<lambda>x. (x - sum_list lx / real (length lx))\<^sup>2) lx) = 0"
  then have "\<forall>x\<in>set lx. x = sum_list lx / real (length lx)"
    by (simp add: sq_dev_zero_iff)
  then show "\<forall>x\<in>set lx. \<forall>y\<in>set lx. x = y" by metis
next
  assume "\<forall>x\<in>set lx. \<forall>y\<in>set lx. x = y"
  from mean_all_equal[OF assms this]
  show "sum_list (map (\<lambda>x. (x - sum_list lx / real (length lx))\<^sup>2) lx) = 0"
    by (simp add: sq_dev_zero_iff)
qed

lemma sxx_nonneg:
  fixes lx :: "real list"
  shows "0 \<le> sum_list (map (\<lambda>x. (x - c)\<^sup>2) lx)"
  by (rule sum_list_nonneg) auto

lemma ols_log10_None_iff:
  assumes "pts = filter (\<lambda>(x, y). x > 0 \<and> y > 0) (zip xs ys)"
    and "lx = map (\<lambda>(x, _). log 10 x) pts"
    and "xm = sum_list lx / real (length lx)"
    and "sxx = sum_list (map (\<lambda>x. (x - xm)\<^sup>2) lx)"
  shows "ols_log10 xs ys = None \<longleftrightarrow> length pts < 3 \<or> sxx = 0"
  unfolding assms ols_log10_def Let_def by (simp split: prod.splits)

lemma sxx_pos:
  fixes lx :: "real list"
  assumes "sum_list (map (\<lambda>x. (x - c)\<^sup>2) lx) \<noteq> 0"
  shows "0 < sum_list (map (\<lambda>x. (x - c)\<^sup>2) lx)"
  using assms sxx_nonneg[of c lx] by linarith

lemma log10_eq_iff: "0 < x \<Longrightarrow> 0 < y \<Longrightarrow> log 10 x = log 10 y \<longleftrightarrow> x = (y::real)"
  using log_inj[of 10, THEN inj_onD, of x y] by auto

text \<open>
  In exact arithmetic the two guards are exact: \<open>ols_log10\<close> returns \<open>None\<close> precisely when
  fewer than three points with positive \<open>x\<close> and \<open>y\<close> remain, or all retained \<open>x\<close> are the
  same; otherwise it returns a fit.
\<close>

theorem ols_log10_unavailable_iff:
  "ols_log10 xs ys = None \<longleftrightarrow>
     (let pts = filter (\<lambda>(x, y). x > 0 \<and> y > 0) (zip xs ys)
      in length pts < 3 \<or> (\<forall>p\<in>set pts. \<forall>q\<in>set pts. fst p = fst q))"
proof -
  define pts where "pts = filter (\<lambda>(x, y). x > 0 \<and> y > 0) (zip xs ys)"
  define lx where "lx = map (\<lambda>(x, _). log 10 x) pts"
  have pos: "\<And>p. p \<in> set pts \<Longrightarrow> 0 < fst p"
    by (auto simp: pts_def)
  have lx_set: "set lx = (\<lambda>p. log 10 (fst p)) ` set pts"
    by (auto simp: lx_def split: prod.splits) force
  have inj: "(\<forall>x\<in>set lx. \<forall>y\<in>set lx. x = y) \<longleftrightarrow> (\<forall>p\<in>set pts. \<forall>q\<in>set pts. fst p = fst q)"
    unfolding lx_set using pos by (simp add: log10_eq_iff)
  have none: "ols_log10 xs ys = None \<longleftrightarrow>
      length pts < 3 \<or> sum_list (map (\<lambda>x. (x - sum_list lx / real (length lx))\<^sup>2) lx) = 0"
    using ols_log10_None_iff[OF pts_def lx_def refl refl] by simp
  show ?thesis
  proof (cases "length pts < 3")
    case True
    then show ?thesis using none by (simp add: Let_def pts_def)
  next
    case False
    then have "lx \<noteq> []" by (auto simp: lx_def)
    from sxx_zero_iff[OF this] none inj False show ?thesis
      by (simp add: Let_def pts_def)
  qed
qed


lemma ols_log10_SomeD:
  assumes "ols_log10 xs ys = Some r"
    and "pts = filter (\<lambda>(x, y). x > 0 \<and> y > 0) (zip xs ys)"
    and "lx = map (\<lambda>(x, _). log 10 x) pts"
    and "ly = map (\<lambda>(_, y). log 10 y) pts"
    and "xm = sum_list lx / real (length lx)"
    and "ym = sum_list ly / real (length lx)"
    and "sxx = sum_list (map (\<lambda>x. (x - xm)\<^sup>2) lx)"
    and "sxy = sum_list (map (\<lambda>(x, y). (x - xm) * (y - ym)) (zip lx ly))"
    and "rss = sum_list (map (\<lambda>(x, y). (y - (sxy / sxx * x + (ym - sxy / sxx * xm)))\<^sup>2) (zip lx ly))"
    and "tss = sum_list (map (\<lambda>y. (y - ym)\<^sup>2) ly)"
    and "df = int (length lx) - 2"
    and "se = sqrt (rss / real_of_int (max 1 df) / sxx)"
  shows "3 \<le> length pts \<and> 0 < sxx \<and>
         r = \<lparr>fit_m = sxy / sxx, fit_b = ym - sxy / sxx * xm,
              fit_lo = Fin (sxy / sxx - tcrit_of df * se),
              fit_hi = Fin (sxy / sxx + tcrit_of df * se),
              fit_r2 = (if tss = 0 then 0 else 1 - rss / tss),
              fit_n = length lx\<rparr>"
proof -
  have pos: "sxx \<noteq> 0 \<Longrightarrow> 0 < sxx"
    unfolding assms(7) by (rule sxx_pos)
  have "ols_log10 xs ys =
      (if length pts < 3 then None
       else if sxx = 0 then None
       else Some \<lparr>fit_m = sxy / sxx, fit_b = ym - sxy / sxx * xm,
              fit_lo = fst (ci_bounds (sxy / sxx) (tcrit_of df) (if sxx > 0 then Fin se else PosInf)),
              fit_hi = snd (ci_bounds (sxy / sxx) (tcrit_of df) (if sxx > 0 then Fin se else PosInf)),
              fit_r2 = (if tss = 0 then 0 else 1 - rss / tss),
              fit_n = length lx\<rparr>)"
    unfolding ols_log10_def assms(2-) Let_def
    by (simp only: split_def if_distrib[of Some] cong: if_cong) 
  with assms(1) pos show ?thesis
    by (auto split: if_splits)
qed


text \<open>
  Claim C6. Whenever a fit is returned, its bounds are slope \<open>\<plusminus>\<close> \<open>t \<cdot> SE\<close> with
  \<open>SE = sqrt ((RSS / max 1 df) / Sxx)\<close>, \<open>df = n - 2\<close>, \<open>Sxx\<close> the unnormalised sum of squared
  deviations of \<open>log10 x\<close>, and \<open>t\<close> read from the fixed table of the claim.
\<close>

theorem ols_log10_confidence_interval:
  "ols_log10 xs ys = Some r \<Longrightarrow>
     (let pts = filter (\<lambda>(x, y). x > 0 \<and> y > 0) (zip xs ys);
          lx = map (\<lambda>(x, _). log 10 x) pts;
          ly = map (\<lambda>(_, y). log 10 y) pts;
          n = length pts;
          xm = sum_list lx / real n;
          Sxx = sum_list (map (\<lambda>x. (x - xm)\<^sup>2) lx);
          RSS = sum_list (map (\<lambda>(x, y). (y - (fit_m r * x + fit_b r))\<^sup>2) (zip lx ly));
          df = int n - 2;
          SE = sqrt ((RSS / real_of_int (max 1 df)) / Sxx);
          t = (if df \<le> 0 then 1.96 else if df = 1 then 12.706
               else if df = 2 then 4.303 else if df \<le> 20 then 2.086 else 1.96)
      in fit_lo r = Fin (fit_m r - t * SE) \<and> fit_hi r = Fin (fit_m r + t * SE))"
proof -
  assume a: "ols_log10 xs ys = Some r"
  define pts where "pts = filter (\<lambda>(x, y). x > 0 \<and> y > 0) (zip xs ys)"
  define lx where "lx = map (\<lambda>(x, _). log 10 x) pts"
  define ly where "ly = map (\<lambda>(_, y). log 10 y) pts"
  define xm where "xm = sum_list lx / real (length lx)"
  define ym where "ym = sum_list ly / real (length lx)"
  define sxx where "sxx = sum_list (map (\<lambda>x. (x - xm)\<^sup>2) lx)"
  define sxy where "sxy = sum_list (map (\<lambda>(x, y). (x - xm) * (y - ym)) (zip lx ly))"
  define rss where
    "rss = sum_list (map (\<lambda>(x, y). (y - (sxy / sxx * x + (ym - sxy / sxx * xm)))\<^sup>2) (zip lx ly))"
  define tss where "tss = sum_list (map (\<lambda>y. (y - ym)\<^sup>2) ly)"
  define df where "df = int (length lx) - 2"
  define se where "se = sqrt (rss / real_of_int (max 1 df) / sxx)"
  note D = ols_log10_SomeD[OF a pts_def lx_def ly_def xm_def ym_def sxx_def sxy_def
      rss_def tss_def df_def se_def]
  have len: "length lx = length pts" by (simp add: lx_def)
  have m: "fit_m r = sxy / sxx" and b: "fit_b r = ym - sxy / sxx * xm"
    and lo: "fit_lo r = Fin (sxy / sxx - tcrit_of df * se)"
    and hi: "fit_hi r = Fin (sxy / sxx + tcrit_of df * se)"
    using D by simp_all
  show ?thesis
    unfolding Let_def pts_def[symmetric] lx_def[symmetric] ly_def[symmetric]
      len[symmetric] xm_def[symmetric] sxx_def[symmetric] m b rss_def[symmetric]
      df_def[symmetric] se_def[symmetric] lo hi
    by (simp add: tcrit_of_def)
qed







lemma log10_10: "log 10 (10::real) = 1" by simp
lemma log10_100: "log 10 (100::real) = 2"
  using log_pow_cancel[of 10 2] by simp
lemma log10_1000: "log 10 (1000::real) = 3"
  using log_pow_cancel[of 10 3] by simp
lemma log10_10000: "log 10 (10000::real) = 4"
  using log_pow_cancel[of 10 4] by simp

lemmas log10_evals = log10_10 log10_100 log10_1000 log10_10000

text \<open>A series that is not an exact power law: \<open>log10\<close> gives (0, 0), (1, 1), (2, 3).\<close>

lemma ols_log10_example:
  "ols_log10 [1, 10, 100] [1, 10, 1000] =
     Some \<lparr>fit_m = 3 / 2, fit_b = - (1 / 6),
           fit_lo = Fin (3 / 2 - 12.706 * sqrt (1 / 12)),
           fit_hi = Fin (3 / 2 + 12.706 * sqrt (1 / 12)),
           fit_r2 = 27 / 28, fit_n = 3\<rparr>"
  by (simp add: ols_log10_def Let_def tcrit_of_def log10_evals power2_eq_square)

text \<open>At three inputs: one shared \<open>x\<close>, two points only, and a proper series.\<close>

theorem ols_log10_unavailable_iff_witness:
  "ols_log10 [2, 2, 2] [1, 2, 3] = None \<and> ols_log10 [1, 2] [1, 2] = None
   \<and> ols_log10 [1, 2, 3] [1, 2, 3] \<noteq> None"
  using ols_log10_unavailable_iff[of "[2, 2, 2]" "[1, 2, 3]"]
    ols_log10_unavailable_iff[of "[1, 2]" "[1, 2]"]
    ols_log10_unavailable_iff[of "[1, 2, 3]" "[1, 2, 3]"]
  by simp

text \<open>Claim C6 on the series of \<open>ols_log10_example\<close>: \<open>df = 1\<close>, \<open>t = 12.706\<close>,
  \<open>SE = sqrt (1 / 12)\<close>.\<close>

theorem ols_log10_confidence_interval_witness:
  "fit_lo (the (ols_log10 [1, 10, 100] [1, 10, 1000])) = Fin (3 / 2 - 12.706 * sqrt (1 / 12)) \<and>
   fit_hi (the (ols_log10 [1, 10, 100] [1, 10, 1000])) = Fin (3 / 2 + 12.706 * sqrt (1 / 12))"
  using ols_log10_confidence_interval[OF ols_log10_example]
  by (simp add: ols_log10_example)

subsection \<open>The fitter under rounding\<close>





lemma round_double_at:
  assumes "2 powr of_int e \<le> \<bar>x\<bar>" "\<bar>x\<bar> < 2 powr of_int (e + 1)"
  shows "round_double x =
     of_int (round_half_even (x / 2 powr of_int (e - 52))) * 2 powr of_int (e - 52)"
proof -
  have "0 < (2::real) powr of_int e" by simp
  with assms(1) have "0 < \<bar>x\<bar>" by linarith
  then have nz: "x \<noteq> 0" by auto
  have "\<lfloor>log 2 \<bar>x\<bar>\<rfloor> = e"
    using floor_log_eq_powr_iff[of "\<bar>x\<bar>" 2 e] assms \<open>0 < \<bar>x\<bar>\<close> by simp
  then show ?thesis using nz by (simp add: round_double_def Let_def)
qed

text \<open>
  The operations on \<open>v = 3504481681265663 / 2\<^sup>5\<^sup>2\<close>, the double nearest to \<open>log10 6\<close>:
  \<open>3 v\<close> is a tie and rounds down, and a third of the sum is the double below \<open>v\<close>.
\<close>

lemma round_double_log6:
  "round_double (0 + 3504481681265663 / 2 ^ 52) = 3504481681265663 / 2 ^ 52"
  "round_double (3504481681265663 / 2 ^ 52 + 3504481681265663 / 2 ^ 52) = 3504481681265663 / 2 ^ 51"
  "round_double (3504481681265663 / 2 ^ 51 + 3504481681265663 / 2 ^ 52) = 2628361260949247 / 2 ^ 50"
  "round_double (2628361260949247 / 2 ^ 50 / 3) = 7008963362531325 / 2 ^ 53"
  "round_double (3504481681265663 / 2 ^ 52 - 7008963362531325 / 2 ^ 53) = 1 / 2 ^ 53"
proof -
  show "round_double (0 + 3504481681265663 / 2 ^ 52) = 3504481681265663 / 2 ^ 52"
    by (subst round_double_at[of "- 1"]) (simp_all add: powr_neg_numeral round_half_even_def)
  show "round_double (3504481681265663 / 2 ^ 52 + 3504481681265663 / 2 ^ 52)
      = 3504481681265663 / 2 ^ 51"
    by (subst round_double_at[of 0]) (simp_all add: powr_neg_numeral round_half_even_def)
  show "round_double (3504481681265663 / 2 ^ 51 + 3504481681265663 / 2 ^ 52)
      = 2628361260949247 / 2 ^ 50"
    by (subst round_double_at[of 1]) (simp_all add: powr_neg_numeral round_half_even_def)
  show "round_double (2628361260949247 / 2 ^ 50 / 3) = 7008963362531325 / 2 ^ 53"
    by (subst round_double_at[of "- 1"]) (simp_all add: powr_neg_numeral round_half_even_def)
  show "round_double (3504481681265663 / 2 ^ 52 - 7008963362531325 / 2 ^ 53) = 1 / 2 ^ 53"
    by (subst round_double_at[of "- 53"]) (simp_all add: powr_neg_numeral round_half_even_def)
qed

lemma round_double_sxx:
  "round_double ((1 / 2 ^ 53)\<^sup>2) = 1 / 2 ^ 106"
  "round_double (0 + 1 / 2 ^ 106) = 1 / 2 ^ 106"
  "round_double (1 / 2 ^ 106 + 1 / 2 ^ 106) = 1 / 2 ^ 105"
  "round_double (1 / 2 ^ 105 + 1 / 2 ^ 106) = 3 / 2 ^ 106"
proof -
  have "((1 / 2 ^ 53)\<^sup>2 :: real) = 1 / 2 ^ 106" by (simp add: power2_eq_square)
  moreover have "round_double (1 / 2 ^ 106) = 1 / 2 ^ 106"
    by (subst round_double_at[of "- 106"]) (simp_all add: powr_neg_numeral round_half_even_def)
  ultimately show "round_double ((1 / 2 ^ 53)\<^sup>2) = 1 / 2 ^ 106" by (simp only:)
  show "round_double (0 + 1 / 2 ^ 106) = 1 / 2 ^ 106"
    by (subst round_double_at[of "- 106"]) (simp_all add: powr_neg_numeral round_half_even_def)
  show "round_double (1 / 2 ^ 106 + 1 / 2 ^ 106) = 1 / 2 ^ 105"
    by (subst round_double_at[of "- 105"]) (simp_all add: powr_neg_numeral round_half_even_def)
  show "round_double (1 / 2 ^ 105 + 1 / 2 ^ 106) = 3 / 2 ^ 106"
    by (subst round_double_at[of "- 105"]) (simp_all add: powr_neg_numeral round_half_even_def)
qed

lemma ols_log10_fp_None_iff:
  assumes "pts = filter (\<lambda>(x, y). x > 0 \<and> y > 0) (zip xs ys)"
    and "lx = map (\<lambda>(x, _). lg x) pts"
    and "xm = rnd (fsum rnd lx / real (length lx))"
    and "sxx = fsum rnd (map (\<lambda>x. rnd ((rnd (x - xm))\<^sup>2)) lx)"
  shows "ols_log10_fp rnd lg xs ys = None \<longleftrightarrow> length pts < 3 \<or> sxx = 0"
  unfolding assms ols_log10_fp_def Let_def by (simp split: prod.splits)

text \<open>
  Claim C3 at three points with \<open>x = 6\<close>, under binary64 rounding, where \<^verbatim>\<open>math.log10(6.0)\<close>
  is the double nearest to \<open>log10 6\<close>. The mean of the three equal logarithms is not that
  logarithm, \<open>sxx\<close> is \<open>3 / 2\<^sup>1\<^sup>0\<^sup>6\<close> and not 0, and a fit is returned although all \<open>x\<close> are
  identical.
\<close>

theorem ols_log10_fp_identical_x:
  assumes "lg 6 = 3504481681265663 / 2 ^ 52"
  shows "ols_log10_fp round_double lg [6, 6, 6] [1, 2, 3] \<noteq> None"
proof -
  let ?v = "3504481681265663 / 2 ^ 52 :: real"
  define pts where "pts = filter (\<lambda>(x, y). x > 0 \<and> y > 0) (zip [6, 6, 6 :: real] [1, 2, 3 :: real])"
  define lx where "lx = map (\<lambda>(x, _). lg x) pts"
  define xm where "xm = round_double (fsum round_double lx / real (length lx))"
  define sxx where "sxx = fsum round_double (map (\<lambda>x. round_double ((round_double (x - xm))\<^sup>2)) lx)"
  have pts: "pts = [(6, 1), (6, 2), (6, 3)]" by (simp add: pts_def)
  have lx: "lx = [?v, ?v, ?v]" by (simp add: lx_def pts assms)
  have "fsum round_double lx = 2628361260949247 / 2 ^ 50"
    unfolding lx fsum_def foldl.simps round_double_log6 by (rule refl)
  moreover have "real (length lx) = 3" by (simp add: lx)
  ultimately have xm: "xm = 7008963362531325 / 2 ^ 53"
    unfolding xm_def by (simp only: round_double_log6)
  have "map (\<lambda>x. round_double ((round_double (x - xm))\<^sup>2)) lx
      = [1 / 2 ^ 106, 1 / 2 ^ 106, 1 / 2 ^ 106]"
    unfolding lx xm list.map round_double_log6 round_double_sxx by (rule refl)
  then have "sxx = 3 / 2 ^ 106"
    unfolding sxx_def fsum_def by (simp only: foldl.simps round_double_sxx)
  then have "sxx \<noteq> 0" by simp
  moreover have "\<not> length pts < 3" by (simp add: pts)
  ultimately show ?thesis
    using ols_log10_fp_None_iff[OF pts_def lx_def xm_def sxx_def] by simp
qed

text \<open>
  The same with a logarithm that returns that double.
\<close>

theorem ols_log10_fp_identical_x_witness:
  "ols_log10_fp round_double (\<lambda>x. 3504481681265663 / 2 ^ 52) [6, 6, 6] [1, 2, 3] \<noteq> None"
  using ols_log10_fp_identical_x[of "\<lambda>x. 3504481681265663 / 2 ^ 52"] by simp

text \<open>
  Rounding to nearest, ties to even, is a rounding: it is odd, maps a positive number
  of the binade \<open>[2\<^sup>e, 2\<^sup>e\<^sup>+\<^sup>1)\<close> into \<open>[2\<^sup>e, 2\<^sup>e\<^sup>+\<^sup>1]\<close>, is monotone and idempotent.
\<close>

lemma rhe_of_int: "round_half_even (of_int k) = k"
  by (simp add: round_half_even_def)

lemma rhe_floor_le: "\<lfloor>q\<rfloor> \<le> round_half_even q" "round_half_even q \<le> \<lfloor>q\<rfloor> + 1"
  unfolding round_half_even_def Let_def by auto

lemma rhe_mono: "q1 \<le> q2 \<Longrightarrow> round_half_even q1 \<le> round_half_even q2"
proof -
  assume le: "q1 \<le> q2"
  then have fl: "\<lfloor>q1\<rfloor> \<le> \<lfloor>q2\<rfloor>" by (rule floor_mono)
  show ?thesis
  proof (cases "\<lfloor>q1\<rfloor> = \<lfloor>q2\<rfloor>")
    case True
    then show ?thesis using le unfolding round_half_even_def Let_def by auto
  next
    case False
    then have "\<lfloor>q1\<rfloor> + 1 \<le> \<lfloor>q2\<rfloor>" using fl by simp
    then show ?thesis using rhe_floor_le(2)[of q1] rhe_floor_le(1)[of q2] by linarith
  qed
qed

lemma rhe_numeral:
  "round_half_even (numeral n) = numeral n"
  "round_half_even (- numeral n) = - numeral n"
  by (simp_all add: round_half_even_def)

lemma rhe_minus: "round_half_even (- q) = - round_half_even q"
proof (cases "q = of_int \<lfloor>q\<rfloor>")
  case True
  then obtain k where "q = of_int k" by metis
  then show ?thesis using rhe_of_int[of k] rhe_of_int[of "- k"] by simp
next
  case False
  then have fl: "\<lfloor>- q\<rfloor> = - \<lfloor>q\<rfloor> - 1"
    by (simp add: floor_minus ceiling_altdef)
  have r: "0 < q - of_int \<lfloor>q\<rfloor>" "q - of_int \<lfloor>q\<rfloor> < 1"
    using False by linarith+
  show ?thesis
    unfolding round_half_even_def Let_def fl using r by (auto; linarith)
qed

lemma binade:
  assumes "x \<noteq> 0"
  shows "2 powr of_int \<lfloor>log 2 \<bar>x\<bar>\<rfloor> \<le> \<bar>x\<bar>" "\<bar>x\<bar> < 2 powr (of_int \<lfloor>log 2 \<bar>x\<bar>\<rfloor> + 1)"
  using floor_log_eq_powr_iff[of "\<bar>x\<bar>" 2 "\<lfloor>log 2 \<bar>x\<bar>\<rfloor>"] assms by simp_all

lemma ulp_scale:
  "(2::real) powr of_int e = 2 ^ 52 * 2 powr of_int (e - 52)"
  "(2::real) powr (of_int e + 1) = 2 ^ 53 * 2 powr of_int (e - 52)"
proof -
  have a: "(2::real) powr (52 + (real_of_int e - 52)) = 2 powr 52 * 2 powr (real_of_int e - 52)"
    by (rule powr_add)
  have b: "(2::real) powr (53 + (real_of_int e - 52)) = 2 powr 53 * 2 powr (real_of_int e - 52)"
    by (rule powr_add)
  have c: "52 + (real_of_int e - 52) = real_of_int e" "53 + (real_of_int e - 52) = real_of_int e + 1"
    by simp_all
  show "(2::real) powr of_int e = 2 ^ 52 * 2 powr of_int (e - 52)"
    using a unfolding c by simp
  show "(2::real) powr (of_int e + 1) = 2 ^ 53 * 2 powr of_int (e - 52)"
    using b unfolding c by simp
qed

lemma round_double_nz:
  "x \<noteq> 0 \<Longrightarrow> round_double x =
     of_int (round_half_even (x / 2 powr of_int (\<lfloor>log 2 \<bar>x\<bar>\<rfloor> - 52)))
       * 2 powr of_int (\<lfloor>log 2 \<bar>x\<bar>\<rfloor> - 52)"
  by (simp add: round_double_def Let_def)

lemma mantissa_pos:
  assumes "0 < x"
  shows "2 ^ 52 \<le> round_half_even (x / 2 powr of_int (\<lfloor>log 2 \<bar>x\<bar>\<rfloor> - 52))"
    and "round_half_even (x / 2 powr of_int (\<lfloor>log 2 \<bar>x\<bar>\<rfloor> - 52)) \<le> 2 ^ 53"
proof -
  define e where "e = \<lfloor>log 2 \<bar>x\<bar>\<rfloor>"
  define u :: real where "u = 2 powr of_int (e - 52)"
  have u: "0 < u" by (simp add: u_def)
  have "2 powr of_int e \<le> x" "x < 2 powr (of_int e + 1)"
    using binade[of x] assms by (simp_all add: e_def)
  then have "2 ^ 52 * u \<le> x" "x < 2 ^ 53 * u"
    unfolding u_def using ulp_scale[of e] by simp_all
  then have q: "2 ^ 52 \<le> x / u" "x / u \<le> 2 ^ 53"
    using u by (simp_all add: field_simps)
  show "2 ^ 52 \<le> round_half_even (x / 2 powr of_int (\<lfloor>log 2 \<bar>x\<bar>\<rfloor> - 52))"
    using rhe_mono[OF q(1)] by (simp add: rhe_numeral e_def u_def)
  show "round_half_even (x / 2 powr of_int (\<lfloor>log 2 \<bar>x\<bar>\<rfloor> - 52)) \<le> 2 ^ 53"
    using rhe_mono[OF q(2)] by (simp add: rhe_numeral e_def u_def)
qed

lemma round_double_pos_range:
  assumes "0 < x"
  shows "2 powr of_int \<lfloor>log 2 \<bar>x\<bar>\<rfloor> \<le> round_double x"
    and "round_double x \<le> 2 powr (of_int \<lfloor>log 2 \<bar>x\<bar>\<rfloor> + 1)"
proof -
  define e where "e = \<lfloor>log 2 \<bar>x\<bar>\<rfloor>"
  define u :: real where "u = 2 powr of_int (e - 52)"
  define k where "k = round_half_even (x / u)"
  have u: "0 \<le> u" by (simp add: u_def)
  have rd: "round_double x = of_int k * u"
    using round_double_nz[of x] assms by (simp add: k_def u_def e_def)
  have "2 ^ 52 \<le> k" "k \<le> 2 ^ 53"
    using mantissa_pos[OF assms] by (simp_all add: k_def u_def e_def)
  then have "(2 ^ 52 :: real) \<le> of_int k" "of_int k \<le> (2 ^ 53 :: real)"
    by simp_all
  then have "2 ^ 52 * u \<le> of_int k * u" "of_int k * u \<le> 2 ^ 53 * u"
    using u by (auto intro: mult_right_mono)
  then show "2 powr of_int \<lfloor>log 2 \<bar>x\<bar>\<rfloor> \<le> round_double x"
    and "round_double x \<le> 2 powr (of_int \<lfloor>log 2 \<bar>x\<bar>\<rfloor> + 1)"
    unfolding rd using ulp_scale[of e] by (simp_all add: u_def e_def)
qed

lemma round_double_minus: "round_double (- x) = - round_double x"
  by (simp add: round_double_def Let_def rhe_minus)

lemma floor_log2_mono: "0 < x \<Longrightarrow> x \<le> y \<Longrightarrow> \<lfloor>log 2 x\<rfloor> \<le> \<lfloor>log 2 y\<rfloor>"
  by (intro floor_mono) simp

lemma round_double_mono_pos:
  assumes "0 < x" "x \<le> y"
  shows "round_double x \<le> round_double y"
proof -
  define ex where "ex = \<lfloor>log 2 \<bar>x\<bar>\<rfloor>"
  define ey where "ey = \<lfloor>log 2 \<bar>y\<bar>\<rfloor>"
  have y: "0 < y" using assms by linarith
  have le: "ex \<le> ey" using floor_log2_mono[OF assms] assms y by (simp add: ex_def ey_def)
  show ?thesis
  proof (cases "ex = ey")
    case True
    define u :: real where "u = 2 powr of_int (ex - 52)"
    have u: "0 < u" by (simp add: u_def)
    have "x / u \<le> y / u" using assms(2) u by (simp add: divide_right_mono)
    then have "round_half_even (x / u) \<le> round_half_even (y / u)" by (rule rhe_mono)
    then have "of_int (round_half_even (x / u)) * u \<le> of_int (round_half_even (y / u)) * u"
      using u by (simp add: mult_right_mono)
    then show ?thesis
      using round_double_nz[of x] round_double_nz[of y] assms(1) y True
      by (simp add: u_def ex_def ey_def)
  next
    case False
    then have "of_int ex + 1 \<le> (of_int ey :: real)" using le by linarith
    then have p: "(2::real) powr (of_int ex + 1) \<le> 2 powr of_int ey" by simp
    have a: "round_double x \<le> 2 powr (of_int ex + 1)"
      unfolding ex_def by (rule round_double_pos_range(2)[OF assms(1)])
    have b: "2 powr of_int ey \<le> round_double y"
      unfolding ey_def by (rule round_double_pos_range(1)[OF y])
    from a p b show ?thesis by linarith
  qed
qed

lemma round_double_sign:
  "0 < x \<Longrightarrow> 0 < round_double x" "x < 0 \<Longrightarrow> round_double x < 0"
proof -
  have pos: "0 < round_double z" if "0 < z" for z
  proof -
    have "0 < (2::real) powr of_int \<lfloor>log 2 \<bar>z\<bar>\<rfloor>" by simp
    with round_double_pos_range(1)[OF that] show ?thesis by linarith
  qed
  show "0 < x \<Longrightarrow> 0 < round_double x" by (rule pos)
  show "x < 0 \<Longrightarrow> round_double x < 0"
    using pos[of "- x"] by (simp add: round_double_minus)
qed

lemma round_double_mono: "x \<le> y \<Longrightarrow> round_double x \<le> round_double y"
proof -
  assume le: "x \<le> y"
  consider "0 < x" | "y < 0" | "x \<le> 0" "0 \<le> y" by linarith
  then show ?thesis
  proof cases
    case 1
    then show ?thesis using le by (rule round_double_mono_pos)
  next
    case 2
    then have "round_double (- y) \<le> round_double (- x)"
      using le by (intro round_double_mono_pos) simp_all
    then show ?thesis by (simp add: round_double_minus)
  next
    case 3
    have "round_double x \<le> 0"
      using 3(1) round_double_sign(2)[of x] by (cases "x = 0") (simp_all add: round_double_def)
    moreover have "0 \<le> round_double y"
      using 3(2) round_double_sign(1)[of y] by (cases "y = 0") (simp_all add: round_double_def)
    ultimately show ?thesis by linarith
  qed
qed

lemma round_double_idem_pos:
  assumes "0 < x"
  shows "round_double (round_double x) = round_double x"
proof -
  define e where "e = \<lfloor>log 2 \<bar>x\<bar>\<rfloor>"
  define u :: real where "u = 2 powr of_int (e - 52)"
  define k where "k = round_half_even (x / u)"
  define y where "y = round_double x"
  have u: "0 < u" by (simp add: u_def)
  have y: "y = of_int k * u"
    using round_double_nz[of x] assms by (simp add: y_def k_def u_def e_def)
  have k: "2 ^ 52 \<le> k" "k \<le> 2 ^ 53"
    using mantissa_pos[OF assms] by (simp_all add: k_def u_def e_def)
  have ypos: "0 < y" unfolding y_def using assms by (rule round_double_sign(1))
  have lo: "2 powr of_int e \<le> y"
    unfolding y_def e_def by (rule round_double_pos_range(1)[OF assms])
  show ?thesis
  proof (cases "k = 2 ^ 53")
    case True
    have y2: "y = 2 powr of_int (e + 1)"
      unfolding y True using ulp_scale(2)[of e] by (simp add: u_def)
    have "2 powr of_int (e + 1) \<le> \<bar>y\<bar>" "\<bar>y\<bar> < 2 powr of_int (e + 1 + 1)"
      unfolding y2 by simp_all
    from round_double_at[OF this]
    have "round_double y =
        of_int (round_half_even (y / 2 powr of_int (e + 1 - 52))) * 2 powr of_int (e + 1 - 52)" .
    moreover have "y = 2 ^ 52 * 2 powr of_int (e + 1 - 52)"
      unfolding y2 by (rule ulp_scale(1))
    moreover have "0 < (2::real) powr of_int (e + 1 - 52)" by simp
    ultimately have "round_double y = of_int (round_half_even (2 ^ 52)) * 2 powr of_int (e + 1 - 52)"
      by (metis less_numeral_extra(3) nonzero_mult_div_cancel_right)
    then have "round_double y = 2 ^ 52 * 2 powr of_int (e + 1 - 52)"
      by (simp add: rhe_numeral)
    then show ?thesis
      using \<open>y = 2 ^ 52 * 2 powr of_int (e + 1 - 52)\<close> by (simp add: y_def)
  next
    case False
    then have "k < 2 ^ 53" using k(2) by linarith
    then have "real_of_int k < 2 ^ 53" by simp
    then have "y < 2 ^ 53 * u" unfolding y using u by (simp add: mult_strict_right_mono)
    then have hi: "y < 2 powr of_int (e + 1)"
      using ulp_scale(2)[of e] by (simp add: u_def)
    have "2 powr of_int e \<le> \<bar>y\<bar>" "\<bar>y\<bar> < 2 powr of_int (e + 1)"
      using lo hi ypos by simp_all
    from round_double_at[OF this]
    have "round_double y = of_int (round_half_even (y / u)) * u" by (simp add: u_def)
    moreover have "y / u = of_int k" unfolding y using u by simp
    ultimately have "round_double y = of_int k * u" by (simp add: rhe_of_int)
    then show ?thesis by (simp add: y y_def[symmetric])
  qed
qed

lemma round_double_idem: "round_double (round_double x) = round_double x"
proof -
  consider "x = 0" | "0 < x" | "x < 0" by linarith
  then show ?thesis
  proof cases
    case 1
    then show ?thesis by (simp add: round_double_def)
  next
    case 2
    then show ?thesis by (rule round_double_idem_pos)
  next
    case 3
    then have "round_double (round_double (- x)) = round_double (- x)"
      by (intro round_double_idem_pos) simp
    then show ?thesis by (simp add: round_double_minus)
  qed
qed

lemma rounding_round_double: "rounding round_double"
  unfolding rounding_def
proof (intro conjI allI)
  show "mono round_double" by (rule monoI) (rule round_double_mono)
  show "round_double 0 = 0" by (simp add: round_double_def)
  show "round_double (round_double x) = round_double x" for x by (rule round_double_idem)
qed


lemma rounding_nonneg: "rounding rnd \<Longrightarrow> 0 \<le> x \<Longrightarrow> 0 \<le> rnd x"
  unfolding rounding_def using monoD[of rnd 0 x] by simp

lemma fsum_nonneg:
  assumes "rounding rnd" "\<And>x. x \<in> set xs \<Longrightarrow> 0 \<le> x"
  shows "0 \<le> fsum rnd xs"
proof -
  have "0 \<le> a \<Longrightarrow> (\<And>x. x \<in> set xs \<Longrightarrow> 0 \<le> x) \<Longrightarrow>
      0 \<le> foldl (\<lambda>acc x. rnd (acc + x)) a xs" for a
    by (induction xs arbitrary: a) (simp_all add: rounding_nonneg[OF assms(1)])
  then show ?thesis using assms(2) by (simp add: fsum_def)
qed

lemma ols_log10_fp_SomeD:
  assumes "ols_log10_fp rnd lg xs ys = Some r"
    and "pts = filter (\<lambda>(x, y). x > 0 \<and> y > 0) (zip xs ys)"
    and "lx = map (\<lambda>(x, _). lg x) pts"
    and "ly = map (\<lambda>(_, y). lg y) pts"
    and "xm = rnd (fsum rnd lx / real (length lx))"
    and "ym = rnd (fsum rnd ly / real (length lx))"
    and "sxx = fsum rnd (map (\<lambda>x. rnd ((rnd (x - xm))\<^sup>2)) lx)"
    and "sxy = fsum rnd (map (\<lambda>(x, y). rnd (rnd (x - xm) * rnd (y - ym))) (zip lx ly))"
    and "m = rnd (sxy / sxx)"
    and "b = rnd (ym - rnd (m * xm))"
    and "rss = fsum rnd (map (\<lambda>(x, y). rnd ((rnd (y - rnd (rnd (m * x) + b)))\<^sup>2)) (zip lx ly))"
    and "se = (if sxx > 0 then Fin (rnd (sqrt (rnd (rnd (rss / real_of_int (max 1 (int (length lx) - 2))) / sxx))))
               else PosInf)"
  shows "sxx \<noteq> 0 \<and> fit_m r = m \<and> fit_b r = b \<and>
         fit_lo r = fst (ci_bounds_fp rnd m (rnd (tcrit_of (int (length lx) - 2))) se) \<and>
         fit_hi r = snd (ci_bounds_fp rnd m (rnd (tcrit_of (int (length lx) - 2))) se)"
proof -
  have "ols_log10_fp rnd lg xs ys =
      (if length pts < 3 then None
       else if sxx = 0 then None
       else Some \<lparr>fit_m = m, fit_b = b,
              fit_lo = fst (ci_bounds_fp rnd m (rnd (tcrit_of (int (length lx) - 2))) se),
              fit_hi = snd (ci_bounds_fp rnd m (rnd (tcrit_of (int (length lx) - 2))) se),
              fit_r2 = (let tss = fsum rnd (map (\<lambda>y. rnd ((rnd (y - ym))\<^sup>2)) ly)
                        in if tss = 0 then 0 else rnd (1 - rnd (rss / tss))),
              fit_n = length lx\<rparr>)"
    unfolding ols_log10_fp_def assms(2-) Let_def
    by (simp only: split_def if_distrib[of Some] cong: if_cong)
  with assms(1) show ?thesis
    by (auto split: if_splits)
qed

text \<open>
  Under any rounding the bounds are the formula of claim C6 with every operation
  rounded; the branch \<^verbatim>\<open>se = inf\<close> is not taken.
\<close>

lemma ols_log10_fp_confidence_interval:
  assumes r: "rounding rnd" and a: "ols_log10_fp rnd lg xs ys = Some r"
  shows
    "(let pts = filter (\<lambda>(x, y). x > 0 \<and> y > 0) (zip xs ys);
          lx = map (\<lambda>(x, _). lg x) pts;
          ly = map (\<lambda>(_, y). lg y) pts;
          n = length pts;
          xm = rnd (fsum rnd lx / real n);
          Sxx = fsum rnd (map (\<lambda>x. rnd ((rnd (x - xm))\<^sup>2)) lx);
          RSS = fsum rnd (map (\<lambda>(x, y). rnd ((rnd (y - rnd (rnd (fit_m r * x) + fit_b r)))\<^sup>2))
                  (zip lx ly));
          df = int n - 2;
          SE = rnd (sqrt (rnd (rnd (RSS / real_of_int (max 1 df)) / Sxx)));
          t = rnd (if df \<le> 0 then 1.96 else if df = 1 then 12.706
                   else if df = 2 then 4.303 else if df \<le> 20 then 2.086 else 1.96)
      in fit_lo r = Fin (rnd (fit_m r - rnd (t * SE))) \<and>
         fit_hi r = Fin (rnd (fit_m r + rnd (t * SE))))"
proof -
  define pts where "pts = filter (\<lambda>(x, y). x > 0 \<and> y > 0) (zip xs ys)"
  define lx where "lx = map (\<lambda>(x, _). lg x) pts"
  define ly where "ly = map (\<lambda>(_, y). lg y) pts"
  define xm where "xm = rnd (fsum rnd lx / real (length lx))"
  define ym where "ym = rnd (fsum rnd ly / real (length lx))"
  define sxx where "sxx = fsum rnd (map (\<lambda>x. rnd ((rnd (x - xm))\<^sup>2)) lx)"
  define sxy where "sxy = fsum rnd (map (\<lambda>(x, y). rnd (rnd (x - xm) * rnd (y - ym))) (zip lx ly))"
  define m where "m = rnd (sxy / sxx)"
  define b where "b = rnd (ym - rnd (m * xm))"
  define rss where
    "rss = fsum rnd (map (\<lambda>(x, y). rnd ((rnd (y - rnd (rnd (m * x) + b)))\<^sup>2)) (zip lx ly))"
  define df where "df = int (length lx) - 2"
  define w where "w = rnd (sqrt (rnd (rnd (rss / real_of_int (max 1 df)) / sxx)))"
  define se where "se = (if sxx > 0 then Fin w else PosInf)"
  note D = ols_log10_fp_SomeD[OF a pts_def lx_def ly_def xm_def ym_def sxx_def sxy_def
      m_def b_def rss_def se_def[unfolded w_def df_def], folded df_def]
  have "0 \<le> sxx"
    unfolding sxx_def by (rule fsum_nonneg[OF r]) (auto intro!: rounding_nonneg[OF r])
  then have sxx: "0 < sxx" using D by simp
  have len: "length lx = length pts" by (simp add: lx_def)
  have mb: "fit_m r = m" "fit_b r = b" using D by simp_all
  have lo: "fit_lo r = Fin (rnd (m - rnd (rnd (tcrit_of df) * w)))"
    and hi: "fit_hi r = Fin (rnd (m + rnd (rnd (tcrit_of df) * w)))"
    using D sxx by (simp_all add: se_def)
  show ?thesis
    unfolding Let_def pts_def[symmetric] lx_def[symmetric] ly_def[symmetric]
      len[symmetric] xm_def[symmetric] sxx_def[symmetric] mb rss_def[symmetric]
      df_def[symmetric] w_def[symmetric] lo hi
    by (simp add: tcrit_of_def)
qed

lemma ols_log10_fp_bounds_bracket_slope:
  assumes r: "rounding rnd" and a: "ols_log10_fp rnd lg xs ys = Some r"
  shows "pf_le (fit_lo r) (Fin (fit_m r)) \<and> pf_le (Fin (fit_m r)) (fit_hi r)"
proof -
  define pts where "pts = filter (\<lambda>(x, y). x > 0 \<and> y > 0) (zip xs ys)"
  define lx where "lx = map (\<lambda>(x, _). lg x) pts"
  define ly where "ly = map (\<lambda>(_, y). lg y) pts"
  define xm where "xm = rnd (fsum rnd lx / real (length lx))"
  define ym where "ym = rnd (fsum rnd ly / real (length lx))"
  define sxx where "sxx = fsum rnd (map (\<lambda>x. rnd ((rnd (x - xm))\<^sup>2)) lx)"
  define sxy where "sxy = fsum rnd (map (\<lambda>(x, y). rnd (rnd (x - xm) * rnd (y - ym))) (zip lx ly))"
  define m where "m = rnd (sxy / sxx)"
  define b where "b = rnd (ym - rnd (m * xm))"
  define rss where
    "rss = fsum rnd (map (\<lambda>(x, y). rnd ((rnd (y - rnd (rnd (m * x) + b)))\<^sup>2)) (zip lx ly))"
  define w where "w = rnd (sqrt (rnd (rnd (rss / real_of_int (max 1 (int (length lx) - 2))) / sxx)))"
  define se where "se = (if sxx > 0 then Fin w else PosInf)"
  define t where "t = rnd (tcrit_of (int (length lx) - 2))"
  note D = ols_log10_fp_SomeD[OF a pts_def lx_def ly_def xm_def ym_def sxx_def sxy_def
      m_def b_def rss_def se_def[unfolded w_def], folded t_def]
  note nn = rounding_nonneg[OF r]
  have "0 \<le> sxx" unfolding sxx_def by (rule fsum_nonneg[OF r]) (auto intro!: nn)
  then have sxx: "0 < sxx" using D by simp
  have "0 \<le> rss" unfolding rss_def by (rule fsum_nonneg[OF r]) (auto intro!: nn)
  then have "0 \<le> w" unfolding w_def using sxx by (intro nn real_sqrt_ge_zero divide_nonneg_nonneg) auto
  moreover have "0 \<le> t" unfolding t_def by (intro nn) (simp add: tcrit_of_def)
  ultimately have tw: "0 \<le> rnd (t * w)" by (intro nn) simp
  have mm: "rnd m = m" using r by (simp add: m_def rounding_def)
  have "rnd (m - rnd (t * w)) \<le> rnd m" "rnd m \<le> rnd (m + rnd (t * w))"
    using r tw by (auto simp: rounding_def intro!: monoD[of rnd])
  then have "rnd (m - rnd (t * w)) \<le> m" "m \<le> rnd (m + rnd (t * w))"
    unfolding mm by simp_all
  then show ?thesis using D sxx by (simp add: se_def)
qed

subsection \<open>The fitter on all float values\<close>

lemma bind_err_Inr [simp]: "bind_err (Inr a) f = f a"
  by (simp add: bind_err_def)

lemma bind_err_Inl [simp]: "bind_err (Inl e) f = Inl e"
  by (simp add: bind_err_def)

lemma x_sum_Fin: "x_sum rnd (map Fin l) = Fin (fsum rnd l)"
proof -
  have "foldl (x_add rnd) (Fin a) (map Fin l) = Fin (foldl (\<lambda>acc x. rnd (acc + x)) a l)" for a
    by (induction l arbitrary: a) simp_all
  then show ?thesis by (simp add: x_sum_def fsum_def)
qed

lemma map_err_Inr: "(\<And>x. x \<in> set l \<Longrightarrow> f x = Inr (g x)) \<Longrightarrow> map_err f l = Inr (map g l)"
  by (induction l) simp_all

lemma filter_Fin:
  "filter (\<lambda>(x, y). pf_lt (Fin 0) x \<and> pf_lt (Fin 0) y) (zip (map Fin xs) (map Fin ys))
     = map (\<lambda>(x, y). (Fin x, Fin y)) (filter (\<lambda>(x, y). x > 0 \<and> y > 0) (zip xs ys))"
proof -
  have "zip (map Fin xs) (map Fin ys) = map (\<lambda>(x, y). (Fin x, Fin y)) (zip xs ys)"
    by (simp add: zip_map_map)
  then show ?thesis by (simp add: filter_map comp_def split_def)
qed

text \<open>
  On finite values, under any rounding, no exception is raised and the fitter on floats
  is the rounded fitter on reals.
\<close>

lemma ols_log10_fp_unfold:
  assumes "pts = filter (\<lambda>(x, y). x > 0 \<and> y > 0) (zip xs ys)"
    and "lx = map (\<lambda>(x, _). lg x) pts"
    and "ly = map (\<lambda>(_, y). lg y) pts"
    and "xm = rnd (fsum rnd lx / real (length lx))"
    and "ym = rnd (fsum rnd ly / real (length lx))"
    and "sxx = fsum rnd (map (\<lambda>x. rnd ((rnd (x - xm))\<^sup>2)) lx)"
    and "sxy = fsum rnd (map (\<lambda>(x, y). rnd (rnd (x - xm) * rnd (y - ym))) (zip lx ly))"
    and "m = rnd (sxy / sxx)"
    and "b = rnd (ym - rnd (m * xm))"
    and "rss = fsum rnd (map (\<lambda>(x, y). rnd ((rnd (y - rnd (rnd (m * x) + b)))\<^sup>2)) (zip lx ly))"
    and "tss = fsum rnd (map (\<lambda>y. rnd ((rnd (y - ym))\<^sup>2)) ly)"
    and "s2 = rnd (rss / real_of_int (max 1 (int (length lx) - 2)))"
    and "se = (if sxx > 0 then Fin (rnd (sqrt (rnd (s2 / sxx)))) else PosInf)"
    and "t = rnd (tcrit_of (int (length lx) - 2))"
  shows "ols_log10_fp rnd lg xs ys =
      (if length pts < 3 then None
       else if sxx = 0 then None
       else Some \<lparr>fit_m = m, fit_b = b,
              fit_lo = fst (ci_bounds_fp rnd m t se),
              fit_hi = snd (ci_bounds_fp rnd m t se),
              fit_r2 = (if tss = 0 then 0 else rnd (1 - rnd (rss / tss))),
              fit_n = length lx\<rparr>)"
  unfolding ols_log10_fp_def assms Let_def
  by (simp only: split_def if_distrib[of Some] cong: if_cong)

lemma ols_log10_float_finite:
  assumes r: "rounding rnd"
  shows "ols_log10_float rnd lg (map Fin xs) (map Fin ys)
     = Inr (map_option float_fit_of (ols_log10_fp rnd lg xs ys))"
proof -
  define pts where "pts = filter (\<lambda>(x, y). x > 0 \<and> y > 0) (zip xs ys)"
  define lx where "lx = map (\<lambda>(x, _). lg x) pts"
  define ly where "ly = map (\<lambda>(_, y). lg y) pts"
  define xm where "xm = rnd (fsum rnd lx / real (length lx))"
  define ym where "ym = rnd (fsum rnd ly / real (length lx))"
  define sxx where "sxx = fsum rnd (map (\<lambda>x. rnd ((rnd (x - xm))\<^sup>2)) lx)"
  define sxy where "sxy = fsum rnd (map (\<lambda>(x, y). rnd (rnd (x - xm) * rnd (y - ym))) (zip lx ly))"
  define m where "m = rnd (sxy / sxx)"
  define b where "b = rnd (ym - rnd (m * xm))"
  define rss where
    "rss = fsum rnd (map (\<lambda>(x, y). rnd ((rnd (y - rnd (rnd (m * x) + b)))\<^sup>2)) (zip lx ly))"
  define tss where "tss = fsum rnd (map (\<lambda>y. rnd ((rnd (y - ym))\<^sup>2)) ly)"
  define s2 where "s2 = rnd (rss / real_of_int (max 1 (int (length lx) - 2)))"
  define se where "se = (if sxx > 0 then Fin (rnd (sqrt (rnd (s2 / sxx)))) else PosInf)"
  define t where "t = rnd (tcrit_of (int (length lx) - 2))"
  note U = ols_log10_fp_unfold[OF pts_def lx_def ly_def xm_def ym_def sxx_def sxy_def m_def
      b_def rss_def tss_def s2_def se_def t_def]
  define xpts where "xpts = map (\<lambda>(x, y). (Fin x, Fin y)) pts"
  have F: "filter (\<lambda>(x, y). pf_lt (Fin 0) x \<and> pf_lt (Fin 0) y) (zip (map Fin xs) (map Fin ys)) = xpts"
    unfolding xpts_def pts_def by (rule filter_Fin)
  have lenx: "length xpts = length pts" by (simp add: xpts_def)
  have pos: "\<And>x y. (x, y) \<in> set pts \<Longrightarrow> 0 < x \<and> 0 < y" by (auto simp: pts_def)
  have LX: "map_err (\<lambda>(x, _). x_log10 lg x) xpts = Inr (map Fin lx)"
  proof -
    have "map_err (\<lambda>(x, _). x_log10 lg x) xpts = Inr (map (\<lambda>(x, _). case x of Fin a \<Rightarrow> Fin (lg a) | _ \<Rightarrow> NaN) xpts)"
      by (rule map_err_Inr) (use pos in \<open>auto simp: xpts_def\<close>)
    then show ?thesis by (simp add: xpts_def lx_def comp_def split_def)
  qed
  have LY: "map_err (\<lambda>(_, y). x_log10 lg y) xpts = Inr (map Fin ly)"
  proof -
    have "map_err (\<lambda>(_, y). x_log10 lg y) xpts = Inr (map (\<lambda>(_, y). case y of Fin a \<Rightarrow> Fin (lg a) | _ \<Rightarrow> NaN) xpts)"
      by (rule map_err_Inr) (use pos in \<open>auto simp: xpts_def\<close>)
    then show ?thesis by (simp add: xpts_def ly_def comp_def split_def)
  qed
  show ?thesis
  proof (cases "length pts < 3")
    case True
    then show ?thesis
      unfolding ols_log10_float_def F U by (simp add: lenx)
  next
    case n3: False
    then have "length pts \<noteq> 0" by linarith
    then have n0: "real (length lx) \<noteq> 0" by (simp add: lx_def)
    have ll: "length lx = length pts" by (simp add: lx_def)
    have XM: "x_div rnd (x_sum rnd (map Fin lx)) (Fin (real (length lx))) = Inr (Fin xm)"
      using n0 by (simp add: x_sum_Fin xm_def)
    have YM: "x_div rnd (x_sum rnd (map Fin ly)) (Fin (real (length lx))) = Inr (Fin ym)"
      using n0 by (simp add: x_sum_Fin ym_def)
    have SXX: "x_sum rnd (map (\<lambda>x. x_sq rnd (x_sub rnd x (Fin xm))) (map Fin lx)) = Fin sxx"
      by (simp add: comp_def sxx_def x_sum_Fin[symmetric])
    have Z: "zip (map Fin lx) (map Fin ly) = map (\<lambda>(x, y). (Fin x, Fin y)) (zip lx ly)"
      by (simp add: zip_map_map)
    have SXY: "x_sum rnd (map (\<lambda>(x, y). x_mul rnd (x_sub rnd x (Fin xm)) (x_sub rnd y (Fin ym)))
        (zip (map Fin lx) (map Fin ly))) = Fin sxy"
      unfolding Z by (simp add: comp_def split_def sxy_def x_sum_Fin[symmetric])
    have B: "x_sub rnd (Fin ym) (x_mul rnd (Fin m) (Fin xm)) = Fin b"
      by (simp add: b_def)
    have RSS: "x_sum rnd (map (\<lambda>(x, y). x_sq rnd (x_sub rnd y (x_add rnd (x_mul rnd (Fin m) x) (Fin b))))
        (zip (map Fin lx) (map Fin ly))) = Fin rss"
      unfolding Z by (simp add: comp_def split_def rss_def x_sum_Fin[symmetric])
    have TSS: "x_sum rnd (map (\<lambda>y. x_sq rnd (x_sub rnd y (Fin ym))) (map Fin ly)) = Fin tss"
      by (simp add: comp_def tss_def x_sum_Fin[symmetric])
    have E0: "pf_eq (Fin sxx) (Fin 0) = (sxx = 0)" by simp
    show ?thesis
    proof (cases "sxx = 0")
      case True
      have "ols_log10_float rnd lg (map Fin xs) (map Fin ys) = Inr None"
        unfolding ols_log10_float_def F Let_def lenx if_not_P[OF n3] LX LY bind_err_Inr
          length_map XM YM SXX E0 if_P[OF True] by (rule refl)
      then show ?thesis unfolding U using n3 True by simp
    next
      case nz: False
      note nn = rounding_nonneg[OF r]
      have "0 \<le> sxx" unfolding sxx_def by (rule fsum_nonneg[OF r]) (auto intro!: nn)
      then have sp: "0 < sxx" using nz by simp
      have M: "x_div rnd (Fin sxy) (Fin sxx) = Inr (Fin m)" using nz by (simp add: m_def)
      have R2: "(if pf_eq (Fin tss) (Fin 0) then Inr (Fin 0)
                 else bind_err (x_div rnd (Fin rss) (Fin tss)) (\<lambda>q. Inr (x_sub rnd (Fin 1) q)))
            = (Inr (Fin (if tss = 0 then 0 else rnd (1 - rnd (rss / tss)))) :: py_error + pyfloat)"
        by simp
      have S2: "x_div rnd (Fin rss) (Fin (real_of_int (max 1 (int (length lx) - 2)))) = Inr (Fin s2)"
        by (simp add: s2_def)
      have "0 \<le> rss" unfolding rss_def by (rule fsum_nonneg[OF r]) (auto intro!: nn)
      then have "0 \<le> s2" unfolding s2_def by (intro nn divide_nonneg_nonneg) simp_all
      then have q: "0 \<le> rnd (s2 / sxx)" using sp by (intro nn divide_nonneg_nonneg) simp_all
      have SE: "(if pf_lt (Fin 0) (Fin sxx) then bind_err (x_div rnd (Fin s2) (Fin sxx)) (x_sqrt rnd)
                 else Inr PosInf) = (Inr se :: py_error + pyfloat)"
        using sp q by (simp add: se_def)
      have se: "se = Fin (rnd (sqrt (rnd (s2 / sxx))))" using sp by (simp add: se_def)
      have LO: "x_sub rnd (Fin m) (x_mul rnd (Fin t) se) = fst (ci_bounds_fp rnd m t se)"
        and HI: "x_add rnd (Fin m) (x_mul rnd (Fin t) se) = snd (ci_bounds_fp rnd m t se)"
        by (simp_all add: se)
      have "ols_log10_float rnd lg (map Fin xs) (map Fin ys) =
          Inr (Some \<lparr>ff_m = Fin m, ff_b = Fin b, ff_lo = fst (ci_bounds_fp rnd m t se),
                 ff_hi = snd (ci_bounds_fp rnd m t se),
                 ff_r2 = Fin (if tss = 0 then 0 else rnd (1 - rnd (rss / tss))),
                 ff_n = length lx\<rparr>)"
        unfolding ols_log10_float_def F Let_def lenx if_not_P[OF n3] LX LY bind_err_Inr
          length_map XM YM SXX E0 if_not_P[OF nz] SXY M B RSS TSS R2 S2 SE t_def[symmetric] LO HI
        by (rule refl)
      then show ?thesis unfolding U using n3 nz by (simp add: float_fit_of_def)
    qed
  qed
qed

text \<open>
  Integers up to \<open>2\<^sup>5\<^sup>3\<close> are floats: rounding leaves them unchanged. So
  \<open>log10_double\<close> is exact at the powers of ten used below.
\<close>

lemma round_double_of_int_pos:
  assumes "0 < k" "k \<le> 2 ^ 53"
  shows "round_double (of_int k) = of_int k"
proof -
  define x :: real where "x = of_int k"
  define e where "e = \<lfloor>log 2 \<bar>x\<bar>\<rfloor>"
  have x1: "1 \<le> x" "x \<le> 2 ^ 53" using assms by (simp_all add: x_def)
  have xnz: "x \<noteq> 0" using x1 by simp
  have b: "2 powr of_int e \<le> x" "x < 2 powr (of_int e + 1)"
    using binade[OF xnz] x1 by (simp_all add: e_def)
  have "0 \<le> log 2 x" using x1 by simp
  then have e0: "0 \<le> e" unfolding e_def using x1 by simp
  have "2 powr real_of_int e \<le> (2::real) powr real_of_int 53" using b(1) x1(2) by simp
  then have "real_of_int e \<le> real_of_int 53"
    using powr_le_cancel_iff[of 2 "real_of_int e" "real_of_int 53"] by linarith
  then have e53: "e \<le> 53" by linarith
  have rd: "round_double x = of_int (round_half_even (x / 2 powr of_int (e - 52))) * 2 powr of_int (e - 52)"
    using round_double_nz[OF xnz] by (simp add: e_def)
  show ?thesis
  proof (cases "e \<le> 52")
    case True
    define N :: nat where "N = nat (52 - e)"
    have "real_of_int (e - 52) = - real N" using True by (simp add: N_def)
    then have u: "(2::real) powr of_int (e - 52) = 1 / 2 ^ N"
      by (simp add: powr_minus powr_realpow inverse_eq_divide)
    have "x / (1 / 2 ^ N) = of_int (k * 2 ^ N)" by (simp add: x_def)
    then have "round_half_even (x / (1 / 2 ^ N)) = k * 2 ^ N" by (simp only: rhe_of_int)
    then have "round_double x = of_int (k * 2 ^ N) * (1 / 2 ^ N)" unfolding rd u by simp
    then show ?thesis by (simp add: x_def)
  next
    case False
    then have e: "e = 53" using e53 by simp
    have "(2::real) ^ 53 \<le> x" using b(1) unfolding e by simp
    then have x: "x = 2 ^ 53" using x1 by simp
    have "round_double x = of_int (round_half_even (x / 2)) * 2"
      using rd unfolding e by simp
    moreover have "x / 2 = 4503599627370496" unfolding x by simp
    ultimately have "round_double x = of_int (round_half_even 4503599627370496) * 2"
      by (simp only:)
    then have "round_double x = 2 ^ 53" by (simp add: rhe_numeral)
    then show ?thesis using x by (simp add: x_def)
  qed
qed

lemma round_double_of_int: "\<bar>k\<bar> \<le> 2 ^ 53 \<Longrightarrow> round_double (of_int k) = of_int k"
proof -
  assume a: "\<bar>k\<bar> \<le> 2 ^ 53"
  consider "k = 0" | "0 < k" | "k < 0" by linarith
  then show ?thesis
  proof cases
    case 1
    then show ?thesis by (simp add: round_double_def)
  next
    case 2
    then show ?thesis using a by (intro round_double_of_int_pos) simp_all
  next
    case 3
    then have "round_double (of_int (- k)) = of_int (- k)"
      using a by (intro round_double_of_int_pos) simp_all
    then show ?thesis by (simp add: round_double_minus)
  qed
qed

lemma round_double_numeral:
  "(numeral n :: int) \<le> 2 ^ 53 \<Longrightarrow> round_double (numeral n) = numeral n"
  "(numeral n :: int) \<le> 2 ^ 53 \<Longrightarrow> round_double (- numeral n) = - numeral n"
  "round_double 0 = 0"
  "round_double 1 = 1"
  "round_double (- 1) = - 1"
  using round_double_of_int[of "numeral n"] round_double_of_int[of "- numeral n"]
    round_double_of_int[of 0] round_double_of_int[of 1] round_double_of_int[of "- 1"]
  by simp_all

lemma log10_double_pow:
  "log10_double 1 = 0" "log10_double 10 = 1" "log10_double 100 = 2"
  "log10_double 1000 = 3" "log10_double 10000 = 4"
  by (simp_all add: log10_double_def log10_evals round_double_numeral)



















text \<open>
  The fitter on floats reads its arguments only through the retained points. When these
  are finite they are the retained points of a series of reals.
\<close>

lemma ols_log10_float_cong:
  "filter (\<lambda>(x, y). pf_lt (Fin 0) x \<and> pf_lt (Fin 0) y) (zip xs ys)
     = filter (\<lambda>(x, y). pf_lt (Fin 0) x \<and> pf_lt (Fin 0) y) (zip xs2 ys2) \<Longrightarrow>
   ols_log10_float rnd lg xs ys = ols_log10_float rnd lg xs2 ys2"
  by (simp add: ols_log10_float_def)

lemma Fin_float_val: "isfinite x \<Longrightarrow> Fin (float_val x) = x"
  by (cases x) simp_all

lemma retained_finite:
  assumes "\<forall>p\<in>set (zip xs ys). pf_lt (Fin 0) (fst p) \<and> pf_lt (Fin 0) (snd p)
             \<longrightarrow> isfinite (fst p) \<and> isfinite (snd p)"
  defines "pts \<equiv> filter (\<lambda>(x, y). pf_lt (Fin 0) x \<and> pf_lt (Fin 0) y) (zip xs ys)"
  shows "filter (\<lambda>(x, y). pf_lt (Fin 0) x \<and> pf_lt (Fin 0) y)
           (zip (map Fin (map (\<lambda>(x, y). float_val x) pts)) (map Fin (map (\<lambda>(x, y). float_val y) pts)))
         = pts"
proof -
  have fin: "Fin (float_val x) = x \<and> Fin (float_val y) = y" if "(x, y) \<in> set pts" for x y
  proof -
    from that have m: "(x, y) \<in> set (zip xs ys)" and p: "pf_lt (Fin 0) x" "pf_lt (Fin 0) y"
      unfolding pts_def by auto
    from assms(1)[rule_format, OF m] p have "isfinite x" "isfinite y" by simp_all
    then show ?thesis by (simp add: Fin_float_val)
  qed
  have "zip (map Fin (map (\<lambda>(x, y). float_val x) pts)) (map Fin (map (\<lambda>(x, y). float_val y) pts))
      = map (\<lambda>(x, y). (Fin (float_val x), Fin (float_val y))) pts"
    by (simp add: zip_map_map split_def comp_def zip_same_conv_map)
  also have "\<dots> = map (\<lambda>p. p) pts"
    by (rule map_cong) (use fin in auto)
  finally have z: "zip (map Fin (map (\<lambda>(x, y). float_val x) pts))
      (map Fin (map (\<lambda>(x, y). float_val y) pts)) = pts" by simp
  show ?thesis unfolding z unfolding pts_def by simp
qed

text \<open>
  Under any rounding the two bounds are \<open>m - w\<close> and \<open>m + w\<close>, each rounded, for one
  half-width \<open>w \<ge> 0\<close>.
\<close>

lemma ols_log10_fp_centred:
  assumes r: "rounding rnd" and a: "ols_log10_fp rnd lg xs ys = Some q"
  shows "\<exists>w. 0 \<le> w \<and> fit_lo q = Fin (rnd (fit_m q - w)) \<and> fit_hi q = Fin (rnd (fit_m q + w))"
proof -
  define pts where "pts = filter (\<lambda>(x, y). x > 0 \<and> y > 0) (zip xs ys)"
  define lx where "lx = map (\<lambda>(x, _). lg x) pts"
  define ly where "ly = map (\<lambda>(_, y). lg y) pts"
  define xm where "xm = rnd (fsum rnd lx / real (length lx))"
  define ym where "ym = rnd (fsum rnd ly / real (length lx))"
  define sxx where "sxx = fsum rnd (map (\<lambda>x. rnd ((rnd (x - xm))\<^sup>2)) lx)"
  define sxy where "sxy = fsum rnd (map (\<lambda>(x, y). rnd (rnd (x - xm) * rnd (y - ym))) (zip lx ly))"
  define m where "m = rnd (sxy / sxx)"
  define b where "b = rnd (ym - rnd (m * xm))"
  define rss where
    "rss = fsum rnd (map (\<lambda>(x, y). rnd ((rnd (y - rnd (rnd (m * x) + b)))\<^sup>2)) (zip lx ly))"
  define w where "w = rnd (sqrt (rnd (rnd (rss / real_of_int (max 1 (int (length lx) - 2))) / sxx)))"
  define se where "se = (if sxx > 0 then Fin w else PosInf)"
  define t where "t = rnd (tcrit_of (int (length lx) - 2))"
  note D = ols_log10_fp_SomeD[OF a pts_def lx_def ly_def xm_def ym_def sxx_def sxy_def
      m_def b_def rss_def se_def[unfolded w_def], folded t_def]
  note nn = rounding_nonneg[OF r]
  have "0 \<le> sxx" unfolding sxx_def by (rule fsum_nonneg[OF r]) (auto intro!: nn)
  then have sxx: "0 < sxx" using D by simp
  have "0 \<le> rss" unfolding rss_def by (rule fsum_nonneg[OF r]) (auto intro!: nn)
  then have "0 \<le> w" unfolding w_def using sxx by (intro nn real_sqrt_ge_zero divide_nonneg_nonneg) auto
  moreover have "0 \<le> t" unfolding t_def by (intro nn) (simp add: tcrit_of_def)
  ultimately have tw: "0 \<le> rnd (t * w)" by (intro nn) simp
  have "fit_lo q = Fin (rnd (fit_m q - rnd (t * w)))" "fit_hi q = Fin (rnd (fit_m q + rnd (t * w)))"
    using D sxx by (simp_all add: se_def)
  with tw show ?thesis by blast
qed

text \<open>
  Claim C10, as amended. Whenever a fit is returned and every retained point (\<open>x > 0\<close> and
  \<open>y > 0\<close>) is finite, the slope is a finite \<open>m\<close>, the bounds are \<open>m - w\<close> and \<open>m + w\<close>, each
  rounded, for one \<open>w \<ge> 0\<close> (the interval is centred on the slope before the two bounds
  are rounded, and exactly so in exact arithmetic), and \<open>lo \<le> m \<le> hi\<close>. This holds under
  any rounding, binary64 included, whatever \<^verbatim>\<open>math.log10\<close> returns.
\<close>

theorem ols_log10_bounds_bracket_slope:
  assumes r: "rounding rnd"
    and fin: "\<forall>p\<in>set (zip xs ys). pf_lt (Fin 0) (fst p) \<and> pf_lt (Fin 0) (snd p)
               \<longrightarrow> isfinite (fst p) \<and> isfinite (snd p)"
    and a: "ols_log10_float rnd lg xs ys = Inr (Some f)"
  shows "\<exists>m w. ff_m f = Fin m \<and> 0 \<le> w \<and> ff_lo f = Fin (rnd (m - w)) \<and> ff_hi f = Fin (rnd (m + w))
           \<and> pf_le (ff_lo f) (ff_m f) \<and> pf_le (ff_m f) (ff_hi f)"
proof -
  define pts where "pts = filter (\<lambda>(x, y). pf_lt (Fin 0) x \<and> pf_lt (Fin 0) y) (zip xs ys)"
  define xs' where "xs' = map (\<lambda>(x, y). float_val x) pts"
  define ys' where "ys' = map (\<lambda>(x, y). float_val y) pts"
  have "filter (\<lambda>(x, y). pf_lt (Fin 0) x \<and> pf_lt (Fin 0) y) (zip (map Fin xs') (map Fin ys'))
      = filter (\<lambda>(x, y). pf_lt (Fin 0) x \<and> pf_lt (Fin 0) y) (zip xs ys)"
    unfolding xs'_def ys'_def pts_def by (rule retained_finite[OF fin])
  then have "ols_log10_float rnd lg xs ys = ols_log10_float rnd lg (map Fin xs') (map Fin ys')"
    by (intro ols_log10_float_cong) simp
  then have "map_option float_fit_of (ols_log10_fp rnd lg xs' ys') = Some f"
    using a ols_log10_float_finite[OF r, of lg xs' ys'] by simp
  then obtain q where q: "ols_log10_fp rnd lg xs' ys' = Some q" and f: "f = float_fit_of q"
    by auto
  from ols_log10_fp_centred[OF r q] obtain w where
    w: "0 \<le> w" "fit_lo q = Fin (rnd (fit_m q - w))" "fit_hi q = Fin (rnd (fit_m q + w))"
    by blast
  have "pf_le (fit_lo q) (Fin (fit_m q)) \<and> pf_le (Fin (fit_m q)) (fit_hi q)"
    by (rule ols_log10_fp_bounds_bracket_slope[OF r q])
  then show ?thesis using w unfolding f by (auto simp: float_fit_of_def)
qed

text \<open>
  A series with a peak, \<open>log10\<close> giving (0, 0), (1, 3), (2, 0), under binary64 rounding:
  the slope is 0 and the half-width is \<open>12.706 \<cdot> sqrt 3\<close>, rounded.
\<close>

lemma fp_peak_example:
  "ols_log10_fp round_double log10_double [1, 10, 100] [1, 1000, 1] =
     Some \<lparr>fit_m = 0, fit_b = 1,
           fit_lo = Fin (round_double (- round_double (round_double (12706 / 1000) * round_double (sqrt 3)))),
           fit_hi = Fin (round_double (round_double (round_double (12706 / 1000) * round_double (sqrt 3)))),
           fit_r2 = 0, fit_n = 3\<rparr>"
  by (simp add: ols_log10_fp_def Let_def fsum_def log10_double_pow round_double_numeral tcrit_of_def)

lemma float_peak_example:
  "ols_log10_float round_double log10_double [Fin 1, Fin 10, Fin 100] [Fin 1, Fin 1000, Fin 1] =
     Inr (Some \<lparr>ff_m = Fin 0, ff_b = Fin 1,
           ff_lo = Fin (round_double (- round_double (round_double (12706 / 1000) * round_double (sqrt 3)))),
           ff_hi = Fin (round_double (round_double (round_double (12706 / 1000) * round_double (sqrt 3)))),
           ff_r2 = Fin 0, ff_n = 3\<rparr>)"
  using ols_log10_float_finite[OF rounding_round_double, of log10_double "[1, 10, 100]" "[1, 1000, 1]"]
  by (simp add: fp_peak_example float_fit_of_def)

text \<open>The amended claim C10 on that series.\<close>

theorem ols_log10_bounds_bracket_slope_witness:
  "\<exists>m w. Fin 0 = Fin m \<and> 0 \<le> w \<and>
     Fin (round_double (- round_double (round_double (12706 / 1000) * round_double (sqrt 3))))
       = Fin (round_double (m - w)) \<and>
     Fin (round_double (round_double (round_double (12706 / 1000) * round_double (sqrt 3))))
       = Fin (round_double (m + w)) \<and>
     pf_le (Fin (round_double (- round_double (round_double (12706 / 1000) * round_double (sqrt 3)))))
       (Fin 0) \<and>
     pf_le (Fin 0)
       (Fin (round_double (round_double (round_double (12706 / 1000) * round_double (sqrt 3)))))"
proof -
  have h: "\<forall>p\<in>set (zip [Fin 1, Fin 10, Fin 100] [Fin 1, Fin 1000, Fin 1]).
      pf_lt (Fin 0) (fst p) \<and> pf_lt (Fin 0) (snd p) \<longrightarrow> isfinite (fst p) \<and> isfinite (snd p)"
    by simp
  from ols_log10_bounds_bracket_slope[OF rounding_round_double h float_peak_example]
  show ?thesis by simp
qed

text \<open>
  Claim C10 as stated fails when an \<open>x\<close> is infinite (the JSON number \<^verbatim>\<open>1e999\<close> is read as
  \<^verbatim>\<open>inf\<close>). The point passes the test \<open>x > 0\<close>, the mean of the logarithms is \<^verbatim>\<open>inf\<close> and
  \<open>sxx\<close> is NaN, which is neither equal to 0 nor greater than 0: a dict is returned whose
  slope and bounds are NaN, and \<open>lo \<le> m\<close> is false.
\<close>

theorem ols_log10_infinite_x_counterexample:
  "pf_lt (Fin 0) PosInf \<and>
   ols_log10_float round_double log10_double [PosInf, Fin 1, Fin 10] [Fin 1, Fin 1, Fin 1] =
     Inr (Some \<lparr>ff_m = NaN, ff_b = NaN, ff_lo = NaN, ff_hi = NaN, ff_r2 = Fin 0, ff_n = 3\<rparr>) \<and>
   \<not> pf_le NaN NaN"
  by (simp add: ols_log10_float_def Let_def x_sum_def log10_double_pow round_double_numeral)

section \<open>Properties of the loader\<close>

lemma length_sort_by_dt:
  "sort_by_dt ps n = (xs, ys, runs, n') \<Longrightarrow> length xs = length ps \<and> n' = n"
  by (auto simp: sort_by_dt_def Let_def)

text \<open>
  Claim C9, as amended. For a loaded file the declared point count is: under the
  dict schema, the number of retained points, or absent when none is retained; under the
  points schema, absent when no point is retained, and otherwise \<^verbatim>\<open>int(n)\<close> of the
  explicit field \<open>n\<close> when present and the number of retained points when not.
\<close>

theorem load_series_declared_count:
  "load_series sf si obj = Inr (xs, ys, runs, n_pts) \<Longrightarrow>
     (is_plateau_audit (try_get obj [''report'', ''series''] (JArr [])) \<longrightarrow>
        n_pts = (if xs = [] then None else Some (int (length xs)))) \<and>
     (\<not> is_plateau_audit (try_get obj [''report'', ''series''] (JArr [])) \<and>
      map_of obj ''points'' = Some (JArr pairs) \<longrightarrow>
        n_pts = (if xs = [] then None
                 else case map_of obj ''n'' of
                        None \<Rightarrow> Some (int (length xs))
                      | Some v \<Rightarrow> (case py_int si v of Inr k \<Rightarrow> Some k | Inl e \<Rightarrow> None)))"
  unfolding load_series_def Let_def
  by (auto simp: dict_get_def split: if_splits sum.splits option.splits json.splits
       dest!: length_sort_by_dt)

text \<open>
  A points record with \<open>n = 7\<close>, given out of order.
\<close>

lemma load_points_n_example:
  "load_series no_numeric_strings no_numeric_strings
     [(''points'', JArr [JArr [JNum 3, JNum 4], JArr [JNum 1, JNum 2]]), (''n'', JNum 7)]
   = Inr ([1, 3], [2, 4], [0, 0], Some 7)"
  by (simp add: load_series_def sort_by_dt_def dict_get_def)

text \<open>
  The amended claim C9 on that record.
\<close>

theorem load_series_declared_count_witness:
  "load_series no_numeric_strings no_numeric_strings
     [(''points'', JArr [JArr [JNum 3, JNum 4], JArr [JNum 1, JNum 2]]), (''n'', JNum 7)]
   = Inr ([1, 3], [2, 4], [0, 0], Some 7) \<and>
   Some 7 = (case py_int no_numeric_strings (JNum 7) of Inr k \<Rightarrow> Some k | Inl e \<Rightarrow> None)"
  using load_series_declared_count[OF load_points_n_example,
      of "[JArr [JNum 3, JNum 4], JArr [JNum 1, JNum 2]]"]
  by (simp add: load_points_n_example)

text \<open>
  Claim C9 as stated fails where a points record declares \<open>n\<close> and no point is
  retained: the count is absent, not 5.
\<close>

theorem load_series_declared_count_counterexample:
  "load_series no_numeric_strings no_numeric_strings [(''points'', JArr []), (''n'', JNum 5)]
     = Inr ([], [], [], None) \<and>
   load_series no_numeric_strings no_numeric_strings
     [(''points'', JArr [JArr [JNum (- 1), JNum 2]]), (''n'', JNum 5)]
     = Inr ([], [], [], None)"
  by (simp add: load_series_def sort_by_dt_def)

text \<open>
  The two branches treat a field that is not a number differently: under the dict schema
  the entry is skipped, under the points schema the error ends the load.
\<close>

lemma load_report_skips:
  "dict_item_xy sf it = Inl e \<Longrightarrow> load_report sf si (it # items) = load_report sf si items"
  by simp

lemma load_points_raises:
  "py_float sf a = Inl e \<or> (\<exists>x. py_float sf a = Inr x \<and> py_float sf c = Inl e) \<Longrightarrow>
     load_points sf (JArr (a # c # extra) # pairs) = Inl e"
  by auto

text \<open>
  Claim C4 at three records. A points entry whose first field is \<open>null\<close> ends the load
  with TypeError, and so does a \<open>runs\<close> field that is \<open>null\<close>; under the dict schema an
  entry with a \<open>null\<close> or missing \<open>dt\<close> or \<open>tail_median\<close> is skipped.
\<close>

theorem load_series_non_numeric_fatal:
  "load_series sf si [(''points'', JArr [JArr [JNull, JNum 1], JArr [JNum 1, JNum 2]])]
     = Inl TypeError \<and>
   load_series sf si
     [(''series'', JArr [JObj [(''dt'', JNum 1), (''tail_median'', JNum 2), (''runs'', JNull)],
                         JObj [(''dt'', JNum 3), (''tail_median'', JNum 4)]])]
     = Inl TypeError \<and>
   load_series sf si
     [(''series'', JArr [JObj [(''dt'', JNum 1), (''tail_median'', JNum 2)],
                         JObj [(''dt'', JNull), (''tail_median'', JNum 3)],
                         JObj [(''dt'', JNum 4)]])]
     = Inr ([1], [2], [0], Some 1)"
  by (simp add: load_series_def dict_item_xy_def sort_by_dt_def dict_get_def)

section \<open>Properties of the tick selector\<close>

(*TICKPROPS*)

section \<open>Properties of the composer and the detector\<close>

lemma lower_LF_thrash: "py_lower ''LF-thrash'' = ''lf-thrash''"
  by code_simp

lemma lower_LF_default: "py_lower ''LF-default'' = ''lf-default''"
  by code_simp

lemma lower_LF_scramble: "py_lower ''LF-scramble'' = ''lf-scramble''"
  by code_simp

lemma is_thrash_labels:
  "endswith (py_lower ''LF-thrash'') ''thrash''"
  "\<not> endswith (py_lower ''LF-default'') ''thrash''"
  "\<not> endswith (py_lower ''LF-scramble'') ''thrash''"
  by (simp_all add: lower_LF_thrash lower_LF_default lower_LF_scramble endswith_def)

lemma is_scramble_labels:
  "\<not> str_contains (py_lower ''LF-thrash'') ''scramble''"
  "\<not> str_contains (py_lower ''LF-default'') ''scramble''"
  "str_contains (py_lower ''LF-scramble'') ''scramble''"
  by (simp_all add: lower_LF_thrash lower_LF_default lower_LF_scramble)

lemma jitter_xs_labels:
  "jitter_xs pct ''LF-default'' xs = xs"
  "jitter_xs pct ''LF-scramble'' xs = xs"
  "jitter_xs pct ''LF-thrash'' xs = (if pct \<noteq> 0 then map (\<lambda>x. x * (1 + pct / 100)) xs else xs)"
  by (simp_all add: jitter_xs_def is_thrash_labels)

text \<open>
  A record in neither schema, as the only input.
\<close>

lemma overlay_empty_example:
  "make_overlay no_numeric_strings no_numeric_strings [(''note'', JStr ''none'')] None None False 0
     = Inr \<lparr>ov_draws = [], ov_labels = [], ov_caption = [],
            ov_series_data = [(''LF-default'', [], [])], ov_warnings = []\<rparr>"
  by (simp add: make_overlay_def overlay_series_def load_series_def sort_by_dt_def
      overlay_init_def jitter_xs_labels)

text \<open>
  Claim C5, as amended. For a record with none of the keys \<open>report\<close>, \<open>series\<close> and
  \<open>points\<close>, a round of the loop only records the empty series in \<open>series_data\<close>: no draw
  call, no fit, no legend entry and no caption line.
\<close>

theorem overlay_series_unrecognized_schema:
  "map_of obj ''report'' = None \<Longrightarrow> map_of obj ''series'' = None \<Longrightarrow>
   map_of obj ''points'' = None \<Longrightarrow>
   overlay_series sf si show_fit pct label obj st =
     Inr (st\<lparr>ov_series_data := AList.update label ([], []) (ov_series_data st)\<rparr>)"
  by (simp add: overlay_series_def load_series_def sort_by_dt_def jitter_xs_def)

text \<open>
  The amended claim C5 on the record above.
\<close>

theorem overlay_series_unrecognized_schema_witness:
  "overlay_series no_numeric_strings no_numeric_strings True 0 ''LF-default''
     [(''note'', JStr ''none'')] overlay_init
   = Inr \<lparr>ov_draws = [], ov_labels = [], ov_caption = [],
          ov_series_data = [(''LF-default'', [], [])], ov_warnings = []\<rparr>"
  using overlay_series_unrecognized_schema[of "[(''note'', JStr ''none'')]"
      no_numeric_strings no_numeric_strings True 0 "''LF-default''" overlay_init]
  by (simp add: overlay_init_def)

text \<open>
  Claim C5 as stated fails on it: the caption stays empty and holds no line
  \<^verbatim>\<open>LF-default: fit n/a\<close>.
\<close>

theorem make_overlay_empty_series_counterexample:
  "make_overlay no_numeric_strings no_numeric_strings [(''note'', JStr ''none'')] None None False 0
     = Inr \<lparr>ov_draws = [], ov_labels = [], ov_caption = [],
            ov_series_data = [(''LF-default'', [], [])], ov_warnings = []\<rparr> \<and>
   CapNA ''LF-default'' \<notin> set (ov_caption \<lparr>ov_draws = [], ov_labels = [], ov_caption = [],
            ov_series_data = [(''LF-default'', [], [])], ov_warnings = []\<rparr>)"
  by (simp add: overlay_empty_example)

lemma nearly_identical_iff:
  "nearly_identical a c tol \<longleftrightarrow>
     length a = length c \<and> (\<forall>k<length a. \<bar>a ! k - c ! k\<bar> \<le> tol)"
  by (auto simp: nearly_identical_def list_all_length)

lemma dup_warnings_complete:
  "i < j \<Longrightarrow> j < length sd \<Longrightarrow> sd ! i = (a, xa, ya) \<Longrightarrow> sd ! j = (c, xb, yb) \<Longrightarrow>
   xa \<noteq> [] \<Longrightarrow> xb \<noteq> [] \<Longrightarrow> nearly_identical xa xb (1 / 10 ^ 12) \<Longrightarrow>
   nearly_identical ya yb (1 / 10 ^ 12) \<Longrightarrow> (a, c) \<in> set (dup_warnings sd)"
proof (induction sd arbitrary: i j)
  case Nil
  then show ?case by simp
next
  case (Cons p rest)
  obtain j' where j': "j = Suc j'" using Cons.prems(1) by (cases j) auto
  show ?case
  proof (cases i)
    case 0
    then have p: "p = (a, xa, ya)" using Cons.prems(3) by simp
    have "(c, xb, yb) \<in> set rest"
      using Cons.prems(2,4) j' by (auto simp: in_set_conv_nth)
    then show ?thesis
      using Cons.prems(5-8) unfolding p by (auto intro!: image_eqI[where x = "(c, xb, yb)"])
  next
    case (Suc i')
    have "(a, c) \<in> set (dup_warnings rest)"
      using Cons.IH[of i' j'] Cons.prems Suc j' by simp
    then show ?thesis by (cases p) auto
  qed
qed

lemma make_overlay_warnings:
  "make_overlay sf si d t s show_fit pct = Inr out \<Longrightarrow>
     ov_warnings out = dup_warnings (ov_series_data out)"
  by (auto simp: make_overlay_def Let_def split: sum.splits)

lemma make_overlay_specs:
  "make_overlay sf si d t s show_fit pct =
     (case overlay_loop sf si show_fit pct (overlay_specs d t s) overlay_init of
        Inl e \<Rightarrow> Inl e
      | Inr st \<Rightarrow> Inr (st\<lparr>ov_warnings := dup_warnings (ov_series_data st)\<rparr>))"
  by (simp add: make_overlay_def overlay_specs_def)

lemma update_fresh: "k \<notin> fst ` set al \<Longrightarrow> AList.update k v al = al @ [(k, v)]"
  by (induction al) auto

lemma overlay_series_data:
  "overlay_series sf si sh pct label obj st = Inr st' \<Longrightarrow>
   \<exists>xs ys runs n. load_series sf si obj = Inr (xs, ys, runs, n) \<and>
     ov_series_data st' = AList.update label (jitter_xs pct label xs, ys) (ov_series_data st)"
  by (auto simp: overlay_series_def Let_def split: sum.splits option.splits if_splits prod.splits)

lemma overlay_loop_series_data:
  "overlay_loop sf si sh pct specs st = Inr st' \<Longrightarrow> distinct (map fst specs) \<Longrightarrow>
   fst ` set (ov_series_data st) \<inter> fst ` set specs = {} \<Longrightarrow>
   length (ov_series_data st') = length (ov_series_data st) + length specs \<and>
   (\<forall>k<length (ov_series_data st). ov_series_data st' ! k = ov_series_data st ! k) \<and>
   (\<forall>k<length specs. \<exists>xs ys runs n.
       load_series sf si (snd (specs ! k)) = Inr (xs, ys, runs, n) \<and>
       ov_series_data st' ! (length (ov_series_data st) + k)
         = (fst (specs ! k), jitter_xs pct (fst (specs ! k)) xs, ys))"
proof (induction specs arbitrary: st)
  case Nil
  then show ?case by simp
next
  case (Cons p specs)
  obtain label obj where p: "p = (label, obj)" by (cases p)
  from Cons.prems(1) obtain st1 where
    s1: "overlay_series sf si sh pct label obj st = Inr st1" and
    l1: "overlay_loop sf si sh pct specs st1 = Inr st'"
    unfolding p by (auto split: sum.splits)
  from overlay_series_data[OF s1] obtain xs ys runs n where
    ld: "load_series sf si obj = Inr (xs, ys, runs, n)" and
    sd: "ov_series_data st1 = AList.update label (jitter_xs pct label xs, ys) (ov_series_data st)"
    by blast
  have fresh: "label \<notin> fst ` set (ov_series_data st)"
    using Cons.prems(3) unfolding p by auto
  have sd1: "ov_series_data st1 = ov_series_data st @ [(label, jitter_xs pct label xs, ys)]"
    unfolding sd by (rule update_fresh[OF fresh])
  have d: "distinct (map fst specs)" using Cons.prems(2) by simp
  have dis: "fst ` set (ov_series_data st1) \<inter> fst ` set specs = {}"
    using Cons.prems(2,3) unfolding sd1 p by auto
  note IH = Cons.IH[OF l1 d dis]
  let ?n = "length (ov_series_data st)"
  have len1: "length (ov_series_data st1) = Suc ?n" unfolding sd1 by simp
  have A: "length (ov_series_data st') = ?n + length (p # specs)"
    using IH len1 by simp
  have keep: "\<And>k. k < Suc ?n \<Longrightarrow> ov_series_data st' ! k = ov_series_data st1 ! k"
    using IH len1 by simp
  have B: "\<forall>k<?n. ov_series_data st' ! k = ov_series_data st ! k"
    using keep unfolding sd1 by (simp add: nth_append)
  have C: "\<exists>xs ys runs n.
       load_series sf si (snd ((p # specs) ! k)) = Inr (xs, ys, runs, n) \<and>
       ov_series_data st' ! (?n + k)
         = (fst ((p # specs) ! k), jitter_xs pct (fst ((p # specs) ! k)) xs, ys)"
    if k: "k < length (p # specs)" for k
  proof (cases k)
    case 0
    have "ov_series_data st' ! ?n = (label, jitter_xs pct label xs, ys)"
      using keep[of ?n] unfolding sd1 by simp
    then show ?thesis using ld 0 unfolding p by simp
  next
    case (Suc k')
    then have "k' < length specs" using k by simp
    then show ?thesis using IH len1 Suc by simp
  qed
  show ?case using A B C by blast
qed

lemma overlay_specs_labels:
  "distinct (map fst (overlay_specs d t s))"
  "(l, obj) \<in> set (overlay_specs d t s) \<Longrightarrow> l = ''LF-default'' \<or> l = ''LF-thrash'' \<or> l = ''LF-scramble''"
  by (auto simp: overlay_specs_def split: option.splits)

text \<open>
  Claim C7, as amended. When \<^verbatim>\<open>make_overlay\<close> succeeds, take two of its files, \<open>i < j\<close> in
  \<open>specs\<close>, to neither of which a jitter is applied: the jitter is 0, or neither is the
  thrash file. If the series \<open>load_series\<close> returns for them are not empty and their \<open>x\<close>
  and \<open>y\<close> sequences have equal lengths and agree elementwise within \<open>1 / 10\<^sup>1\<^sup>2\<close>, the pair
  of their labels is among the warnings, whatever schema each file has.
\<close>

theorem make_overlay_reports_identical:
  assumes "make_overlay sf si d t s show_fit pct = Inr out"
    and "i < j" and "j < length (overlay_specs d t s)"
    and "overlay_specs d t s ! i = (a, oa)"
    and "overlay_specs d t s ! j = (c, ob)"
    and "load_series sf si oa = Inr (xa, ya, ra, na)"
    and "load_series sf si ob = Inr (xb, yb, rb, nb)"
    and "pct = 0 \<or> (a \<noteq> ''LF-thrash'' \<and> c \<noteq> ''LF-thrash'')"
    and "xa \<noteq> []"
    and "length xa = length xb"
    and "\<forall>k<length xa. \<bar>xa ! k - xb ! k\<bar> \<le> 1 / 10 ^ 12"
    and "length ya = length yb"
    and "\<forall>k<length ya. \<bar>ya ! k - yb ! k\<bar> \<le> 1 / 10 ^ 12"
  shows "(a, c) \<in> set (ov_warnings out)"
proof -
  let ?specs = "overlay_specs d t s"
  from assms(1) obtain st where
    loop: "overlay_loop sf si show_fit pct ?specs overlay_init = Inr st" and
    out: "out = st\<lparr>ov_warnings := dup_warnings (ov_series_data st)\<rparr>"
    unfolding make_overlay_specs by (auto split: sum.splits)
  have init: "ov_series_data overlay_init = []" by (simp add: overlay_init_def)
  from overlay_loop_series_data[OF loop overlay_specs_labels(1)]
  have len: "length (ov_series_data st) = length ?specs"
    and ent: "\<And>k. k < length ?specs \<Longrightarrow> \<exists>xs ys runs n.
       load_series sf si (snd (?specs ! k)) = Inr (xs, ys, runs, n) \<and>
       ov_series_data st ! k = (fst (?specs ! k), jitter_xs pct (fst (?specs ! k)) xs, ys)"
    unfolding init by simp_all
  have ij: "i < length ?specs" using assms(2,3) by simp
  have la: "a = ''LF-default'' \<or> a = ''LF-thrash'' \<or> a = ''LF-scramble''"
    using overlay_specs_labels(2)[of a oa d t s] nth_mem[OF ij] assms(4) by simp
  have lc: "c = ''LF-default'' \<or> c = ''LF-thrash'' \<or> c = ''LF-scramble''"
    using overlay_specs_labels(2)[of c ob d t s] nth_mem[OF assms(3)] assms(5) by simp
  have ja: "jitter_xs pct a xa = xa" using la assms(8) by (auto simp: jitter_xs_labels)
  have jc: "jitter_xs pct c xb = xb" using lc assms(8) by (auto simp: jitter_xs_labels)
  have ei: "ov_series_data st ! i = (a, xa, ya)"
    using ent[OF ij] assms(4,6) ja by auto
  have ej: "ov_series_data st ! j = (c, xb, yb)"
    using ent[OF assms(3)] assms(5,7) jc by auto
  have "xb \<noteq> []" using assms(9,10) by auto
  moreover have "nearly_identical xa xb (1 / 10 ^ 12)"
    using assms(10,11) by (simp add: nearly_identical_iff)
  moreover have "nearly_identical ya yb (1 / 10 ^ 12)"
    using assms(12,13) by (simp add: nearly_identical_iff)
  ultimately have "(a, c) \<in> set (dup_warnings (ov_series_data st))"
    using dup_warnings_complete[of i j "ov_series_data st" a xa ya c xb yb]
      assms(2,3,9) ei ej len by simp
  then show ?thesis unfolding out by simp
qed

text \<open>
  The same series given once under the dict schema and once under the points schema.
\<close>

lemma load_dict_example:
  "load_series no_numeric_strings no_numeric_strings
     [(''series'', JArr [JObj [(''dt'', JNum 1), (''tail_median'', JNum 2)]])]
   = Inr ([1], [2], [0], Some 1)"
  by (simp add: load_series_def sort_by_dt_def dict_item_xy_def dict_get_def)

lemma load_pair_example:
  "load_series no_numeric_strings no_numeric_strings [(''points'', JArr [JArr [JNum 1, JNum 2]])]
   = Inr ([1], [2], [0], Some 1)"
  by (simp add: load_series_def sort_by_dt_def dict_get_def)

lemma overlay_two_schemas_example:
  "make_overlay no_numeric_strings no_numeric_strings
     [(''series'', JArr [JObj [(''dt'', JNum 1), (''tail_median'', JNum 2)]])]
     (Some [(''points'', JArr [JArr [JNum 1, JNum 2]])]) None False 0
   = Inr \<lparr>ov_draws = [DrawLine ''LF-default'' [1] [2], DrawMarkers ''LF-default'' [1] [2],
                      DrawLine ''LF-thrash'' [1] [2], DrawMarkers ''LF-thrash'' [1] [2]],
          ov_labels = [''LF-default'', ''LF-thrash''],
          ov_caption = [CapNA ''LF-default'', CapNA ''LF-thrash''],
          ov_series_data = [(''LF-default'', [1], [2]), (''LF-thrash'', [1], [2])],
          ov_warnings = [(''LF-default'', ''LF-thrash'')]\<rparr>"
  by (simp add: make_overlay_def overlay_series_def load_series_def sort_by_dt_def
      overlay_init_def jitter_xs_labels dict_item_xy_def dict_get_def ols_log10_def
      nearly_identical_def)

text \<open>
  The amended claim C7 on these two files.
\<close>

theorem make_overlay_reports_identical_witness:
  "\<exists>out. make_overlay no_numeric_strings no_numeric_strings
     [(''series'', JArr [JObj [(''dt'', JNum 1), (''tail_median'', JNum 2)]])]
     (Some [(''points'', JArr [JArr [JNum 1, JNum 2]])]) None False 0 = Inr out \<and>
     (''LF-default'', ''LF-thrash'') \<in> set (ov_warnings out)"
proof -
  note E = overlay_two_schemas_example
  have "(''LF-default'', ''LF-thrash'') \<in> set (ov_warnings
     \<lparr>ov_draws = [DrawLine ''LF-default'' [1] [2], DrawMarkers ''LF-default'' [1] [2],
                      DrawLine ''LF-thrash'' [1] [2], DrawMarkers ''LF-thrash'' [1] [2]],
          ov_labels = [''LF-default'', ''LF-thrash''],
          ov_caption = [CapNA ''LF-default'', CapNA ''LF-thrash''],
          ov_series_data = [(''LF-default'', [1], [2]), (''LF-thrash'', [1], [2])],
          ov_warnings = [(''LF-default'', ''LF-thrash'')]\<rparr>)"
    using make_overlay_reports_identical[OF E, of 0 1
      "''LF-default''" _ "''LF-thrash''" _ "[1]" "[2]" "[0]" "Some 1" "[1]" "[2]" "[0]" "Some 1"]
    by (simp add: overlay_specs_def load_dict_example load_pair_example)
  with E show ?thesis by blast
qed

text \<open>
  Claim C7 as stated fails on two files that load as empty series: these are equal
  within the tolerance and the guard \<^verbatim>\<open>xa and xb\<close> keeps them out of the warnings.
\<close>

theorem make_overlay_empty_pair_counterexample:
  "load_series no_numeric_strings no_numeric_strings [] = Inr ([], [], [], None) \<and>
   nearly_identical [] [] (1 / 10 ^ 12) \<and>
   make_overlay no_numeric_strings no_numeric_strings [] (Some []) None False 0
   = Inr \<lparr>ov_draws = [], ov_labels = [], ov_caption = [],
          ov_series_data = [(''LF-default'', [], []), (''LF-thrash'', [], [])],
          ov_warnings = []\<rparr>"
  by (simp add: make_overlay_def overlay_series_def load_series_def sort_by_dt_def
      overlay_init_def jitter_xs_labels nearly_identical_def)

lemma ols_identity_example:
  "ols_log10 [1, 10, 100] [1, 10, 100] =
     Some \<lparr>fit_m = 1, fit_b = 0, fit_lo = Fin 1, fit_hi = Fin 1, fit_r2 = 1, fit_n = 3\<rparr>"
  by (simp add: ols_log10_def Let_def tcrit_of_def log10_evals)

lemma ols_jittered_example:
  "ols_log10 [10, 100, 1000] [1, 10, 100] =
     Some \<lparr>fit_m = 1, fit_b = - 1, fit_lo = Fin 1, fit_hi = Fin 1, fit_r2 = 1, fit_n = 3\<rparr>"
  by (simp add: ols_log10_def Let_def tcrit_of_def log10_evals)

lemma load_points_example:
  "load_series sf si
     [(''points'', JArr [JArr [JNum 1, JNum 1], JArr [JNum 10, JNum 10], JArr [JNum 100, JNum 100]])]
   = Inr ([1, 10, 100], [1, 10, 100], [0, 0, 0], Some 3)"
  by (simp add: load_series_def sort_by_dt_def dict_get_def)

text \<open>
  Claim C1 at a thrash file with the points (1, 1), (10, 10), (100, 100) and a jitter of
  900 percent. The jittered \<open>xs\<close> are what \<open>ols_log10\<close> receives: the intercept of the fit
  is \<open>- 1\<close>, where the loaded data give 0, and the fit line is drawn from \<open>x = 10\<close> to
  \<open>x = 1000\<close>.
\<close>

theorem overlay_series_jitter_reaches_fitter:
  "jitter_xs 900 ''LF-thrash'' [1, 10, 100] = [10, 100, 1000] \<and>
   ols_log10 [1, 10, 100] [1, 10, 100] =
     Some \<lparr>fit_m = 1, fit_b = 0, fit_lo = Fin 1, fit_hi = Fin 1, fit_r2 = 1, fit_n = 3\<rparr> \<and>
   ols_log10 (jitter_xs 900 ''LF-thrash'' [1, 10, 100]) [1, 10, 100] =
     Some \<lparr>fit_m = 1, fit_b = - 1, fit_lo = Fin 1, fit_hi = Fin 1, fit_r2 = 1, fit_n = 3\<rparr> \<and>
   overlay_series sf si True 900 ''LF-thrash''
     [(''points'', JArr [JArr [JNum 1, JNum 1], JArr [JNum 10, JNum 10], JArr [JNum 100, JNum 100]])]
     overlay_init
   = Inr \<lparr>ov_draws = [DrawLine ''LF-thrash'' [10, 100, 1000] [1, 10, 100],
                      DrawMarkers ''LF-thrash'' [10, 100, 1000] [1, 10, 100],
                      DrawFit ''LF-thrash'' [10, 1000] [1, 100]],
          ov_labels = [''LF-thrash''],
          ov_caption = [CapFit ''LF-thrash'' 1 (Fin 1) (Fin 1) 1],
          ov_series_data = [(''LF-thrash'', [10, 100, 1000], [1, 10, 100])],
          ov_warnings = []\<rparr>"
proof -
  have j: "jitter_xs 900 ''LF-thrash'' [1, 10, 100] = [10, 100, 1000]"
    by (simp add: jitter_xs_labels)
  have fl: "fit_line \<lparr>fit_m = 1, fit_b = - 1, fit_lo = Fin 1, fit_hi = Fin 1, fit_r2 = 1, fit_n = 3\<rparr>
      [10, 100, 1000] = Inr ([10, 1000], [1, 100])"
    by (simp add: fit_line_def py_log10_def log10_evals)
  show ?thesis
    unfolding j
    by (simp add: ols_identity_example ols_jittered_example overlay_series_def
        load_points_example j fl overlay_init_def is_scramble_labels Let_def)
qed

end
